theory Spec2Isabelle
  imports Main
begin

section \<open>Values, dictionaries and exceptions\<close>

text \<open>
  The module \<^verbatim>\<open>bt_helper.py\<close> drives BlueZ over D-Bus. The values it compares are
  D-Bus property values and the caller's filter values. Python's \<^verbatim>\<open>bool\<close> (and
  \<^verbatim>\<open>dbus.Boolean\<close>) is a subclass of \<^verbatim>\<open>int\<close> with \<^verbatim>\<open>True == 1\<close>, so a boolean is
  modelled as the integer it equals; HOL equality on \<open>pyval\<close> is then Python's \<^verbatim>\<open>==\<close>.
\<close>

datatype pyval = PyNone | PInt int | PStr string

abbreviation PyTrue :: pyval where "PyTrue \<equiv> PInt 1"
abbreviation PyFalse :: pyval where "PyFalse \<equiv> PInt 0"

fun truthy :: "pyval \<Rightarrow> bool" where
  "truthy PyNone = False"
| "truthy (PInt n) = (n \<noteq> 0)"
| "truthy (PStr s) = (s \<noteq> [])"

datatype exn = KeyError string | DBusException string | AttributeError string

text \<open>
  A \<^verbatim>\<open>dict\<close> with string keys is the list of its items, in iteration order;
  \<^verbatim>\<open>d[k]\<close> raises \<^verbatim>\<open>KeyError\<close> on a missing key, \<^verbatim>\<open>d.get(k)\<close> gives \<^verbatim>\<open>None\<close>.
\<close>

type_synonym 'v dict = "(string \<times> 'v) list"
type_synonym path = string
type_synonym props = "pyval dict"
type_synonym ifaces = "props dict"
type_synonym managed = "ifaces dict"

definition getitem :: "'v dict \<Rightarrow> string \<Rightarrow> exn + 'v" where
  "getitem d k = (case map_of d k of None \<Rightarrow> Inl (KeyError k) | Some v \<Rightarrow> Inr v)"

definition keys :: "'v dict \<Rightarrow> string list" where
  "keys d = map fst d"

section \<open>Module constants\<close>

definition IFACE :: string where "IFACE = ''org.bluez.Adapter1''"
definition ADAPTER_IFACE :: string where "ADAPTER_IFACE = ''org.bluez.Adapter1''"
definition DEVICE_IFACE :: string where "DEVICE_IFACE = ''org.bluez.Device1''"

definition BT_ANY :: int where "BT_ANY = 0"
definition BT_KEYBOARD :: int where "BT_KEYBOARD = 9536"  \<comment> \<open>\<^verbatim>\<open>int('0x2540', 16)\<close>\<close>

section \<open>The device filter of \<^verbatim>\<open>get_bt_devices\<close>\<close>

text \<open>
  The \<^verbatim>\<open>for filter in filters\<close> loop (lines 80-83): its result is the flag
  \<^verbatim>\<open>rejected\<close>, or the \<^verbatim>\<open>KeyError\<close> of \<^verbatim>\<open>obj[filter]\<close>.
\<close>

fun filter_loop :: "props \<Rightarrow> pyval dict \<Rightarrow> string list \<Rightarrow> exn + bool" where
  "filter_loop obj filters [] = Inr False"
| "filter_loop obj filters (k # ks) =
     (case getitem obj k of
        Inl e \<Rightarrow> Inl e
      | Inr v \<Rightarrow>
          (case getitem filters k of
             Inl e \<Rightarrow> Inl e
           | Inr fv \<Rightarrow> if v \<noteq> fv then Inr True else filter_loop obj filters ks))"

text \<open>
  The body of the \<^verbatim>\<open>try\<close> block (lines 76-86) for one device, whose \<^verbatim>\<open>Device1\<close>
  properties are \<open>obj\<close>: it yields the device, or goes on to the next one
  (\<^verbatim>\<open>continue\<close>), or raises.
\<close>

datatype verdict = Yield | Continue

definition try_body :: "int \<Rightarrow> pyval dict \<Rightarrow> props \<Rightarrow> exn + verdict" where
  "try_body category filters obj =
     (case (if category \<noteq> BT_ANY
            then (case getitem obj ''Class'' of
                    Inl e \<Rightarrow> Inl e
                  | Inr c \<Rightarrow> Inr (c \<noteq> PInt category))
            else Inr False) of
        Inl e \<Rightarrow> Inl e
      | Inr True \<Rightarrow> Inr Continue
      | Inr False \<Rightarrow>
          (case filter_loop obj filters (keys filters) of
             Inl e \<Rightarrow> Inl e
           | Inr rejected \<Rightarrow> Inr (if rejected then Continue else Yield)))"

text \<open>
  The \<^verbatim>\<open>try\<close> statement with its handler (lines 75-90): \<^verbatim>\<open>except KeyError\<close> logs
  the missing property at info level and continues; any other exception would leave the
  generator.
\<close>

datatype step = Yielded | Skipped | SkippedLogged string | Escaped exn

definition visit :: "int \<Rightarrow> pyval dict \<Rightarrow> props \<Rightarrow> step" where
  "visit category filters obj =
     (case try_body category filters obj of
        Inr Yield \<Rightarrow> Yielded
      | Inr Continue \<Rightarrow> Skipped
      | Inl (KeyError k) \<Rightarrow> SkippedLogged k
      | Inl e \<Rightarrow> Escaped e)"

section \<open>The bus, the trace and the manager's state\<close>

text \<open>
  BlueZ, the D-Bus binding and the GLib main loop are outside the module. They are
  modelled by what the module can observe of them:
  \<^item> every interaction of the module with the outside is appended to a \<open>trace\<close>;
  \<^item> the remote side is a \<open>world\<close>: what \<^verbatim>\<open>GetManagedObjects()\<close> replies, whether a
    method call raises \<^verbatim>\<open>DBusException\<close>, and what \<^verbatim>\<open>Properties.Get\<close> replies, each as a
    function of the trace so far (so a reply may depend on everything done before);
  \<^item> the events the main loop will dispatch while it runs (signals, the method return
    or error of an asynchronous \<^verbatim>\<open>Pair()\<close>, an elapsed timeout) are a queue.
\<close>

datatype call =
    StopDiscovery path
  | StartDiscovery path
  | Connect path
  | Disconnect path
  | GetProp path string string
  | SetProp path string string pyval

datatype level = Info | Warning | Error

datatype msg =
    PropertyNotFound string path
  | PoweringOn string
  | AlreadyPowered
  | PoweredOn
  | FailedToPowerOn string
  | FailedToConnect string
  | SuccessfullyPaired path
  | PairingFailed path string
  | PropertyChanged path
  | AddedInterfaces path

datatype receiver = InterfacesAddedReceiver | PropertiesChangedReceiver

datatype action =
    GetManagedObjects
  | Invoke call "string option"
      \<comment> \<open>a synchronous method call; \<open>Some m\<close> when it raised \<^verbatim>\<open>DBusException\<close> with message \<open>m\<close>\<close>
  | PairAsync path
  | AddSignalReceiver receiver
  | TimeoutAddSeconds nat
  | LoopRun
  | LoopQuit
  | Log level msg

datatype event =
    InterfacesAdded path
  | PropertiesChanged string path  \<comment> \<open>the signal's interface argument and the object path\<close>
  | TimeoutElapsed
  | PairReply path
  | PairError path string

record world =
  objects :: "action list \<Rightarrow> managed"
  refuses :: "action list \<Rightarrow> call \<Rightarrow> string option"
  prop_value :: "action list \<Rightarrow> path \<Rightarrow> string \<Rightarrow> pyval"

record state =
  trace :: "action list"
  receivers :: "receiver list"   \<comment> \<open>signal receivers added to the bus connection\<close>
  timers :: "nat list"           \<comment> \<open>armed GLib timeouts (seconds), all calling \<^verbatim>\<open>_scan_timeout\<close>\<close>
  pending :: "path list"         \<comment> \<open>devices with a \<^verbatim>\<open>Pair()\<close> call awaiting its reply\<close>
  running :: bool                \<comment> \<open>the main loop's running flag\<close>
  queue :: "event list"          \<comment> \<open>events the main loop has still to dispatch\<close>

definition emit :: "action \<Rightarrow> state \<Rightarrow> state" where
  "emit a s = s\<lparr>trace := trace s @ [a]\<rparr>"

definition log :: "level \<Rightarrow> msg \<Rightarrow> state \<Rightarrow> state" where
  "log l m s = emit (Log l m) s"

text \<open>A synchronous D-Bus method call: it returns, or raises \<^verbatim>\<open>DBusException\<close>.\<close>

definition invoke :: "world \<Rightarrow> call \<Rightarrow> state \<Rightarrow> (exn + unit) \<times> state" where
  "invoke w c s =
     (case refuses w (trace s) c of
        None \<Rightarrow> (Inr (), emit (Invoke c None) s)
      | Some m \<Rightarrow> (Inl (DBusException m), emit (Invoke c (Some m)) s))"

section \<open>\<^verbatim>\<open>BtDbusManager\<close>: enumeration\<close>

text \<open>
  \<^verbatim>\<open>_get_objects_by_iface\<close> (lines 51-54): one \<^verbatim>\<open>GetManagedObjects()\<close> call, then the
  paths whose interface dictionary has a truthy entry for the interface
  (\<^verbatim>\<open>ifaces.get(iface_name)\<close>: present and not an empty dictionary).
\<close>

definition provides :: "ifaces \<Rightarrow> string \<Rightarrow> bool" where
  "provides ifs iface_name =
     (case map_of ifs iface_name of None \<Rightarrow> False | Some ps \<Rightarrow> ps \<noteq> [])"

definition get_objects_by_iface :: "world \<Rightarrow> string \<Rightarrow> state \<Rightarrow> path list \<times> state" where
  "get_objects_by_iface w iface_name s =
     (map fst (filter (\<lambda>(p, ifs). provides ifs iface_name) (objects w (trace s))),
      emit GetManagedObjects s)"

text \<open>\<^verbatim>\<open>get_object_by_path\<close> (lines 96-97): a fresh \<^verbatim>\<open>GetManagedObjects()\<close>, indexed by the path.\<close>

definition get_object_by_path :: "world \<Rightarrow> path \<Rightarrow> state \<Rightarrow> (exn + ifaces) \<times> state" where
  "get_object_by_path w p s = (getitem (objects w (trace s)) p, emit GetManagedObjects s)"

text \<open>
  \<^verbatim>\<open>get_bt_devices\<close> (lines 61-90) is a generator. Its model runs it to the end: the
  result is the list of devices it yielded (each \<^verbatim>\<open>BtDevice\<close> stands for its object
  path) and the exception that ended it, if one did. Line 74, the lookup of the device's
  properties, stands before the \<^verbatim>\<open>try\<close>.
\<close>

fun devices_loop ::
  "world \<Rightarrow> int \<Rightarrow> pyval dict \<Rightarrow> path list \<Rightarrow> state \<Rightarrow> (path list \<times> exn option) \<times> state" where
  "devices_loop w category filters [] s = (([], None), s)"
| "devices_loop w category filters (device # rest) s =
     (case get_object_by_path w device s of
        (Inl e, s1) \<Rightarrow> (([], Some e), s1)
      | (Inr ifs, s1) \<Rightarrow>
          (case getitem ifs DEVICE_IFACE of
             Inl e \<Rightarrow> (([], Some e), s1)
           | Inr obj \<Rightarrow>
               (case visit category filters obj of
                  Yielded \<Rightarrow>
                    (case devices_loop w category filters rest s1 of
                       ((ys, r), s2) \<Rightarrow> ((device # ys, r), s2))
                | Skipped \<Rightarrow> devices_loop w category filters rest s1
                | SkippedLogged k \<Rightarrow>
                    devices_loop w category filters rest (log Info (PropertyNotFound k device) s1)
                | Escaped e \<Rightarrow> (([], Some e), s1))))"

definition get_bt_devices ::
  "world \<Rightarrow> int \<Rightarrow> pyval dict \<Rightarrow> state \<Rightarrow> (path list \<times> exn option) \<times> state" where
  "get_bt_devices w category filters s =
     (case get_objects_by_iface w DEVICE_IFACE s of
        (devices, s1) \<Rightarrow> devices_loop w category filters devices s1)"

section \<open>The main loop and its callbacks\<close>

text \<open>\<^verbatim>\<open>resume\<close> (lines 102-103): \<^verbatim>\<open>self._main_loop.quit()\<close>.\<close>

definition resume :: "state \<Rightarrow> state" where
  "resume s = (emit LoopQuit s)\<lparr>running := False\<rparr>"

text \<open>
  \<^verbatim>\<open>_scan_timeout\<close> (lines 124-127). The \<^verbatim>\<open>StopDiscovery()\<close> call of its loop is not
  inside a \<^verbatim>\<open>try\<close>: an exception ends the loop and the function, before \<^verbatim>\<open>quit()\<close>.
\<close>

fun stop_each :: "world \<Rightarrow> path list \<Rightarrow> state \<Rightarrow> (exn + unit) \<times> state" where
  "stop_each w [] s = (Inr (), s)"
| "stop_each w (adapter # rest) s =
     (case invoke w (StopDiscovery adapter) s of
        (Inl e, s1) \<Rightarrow> (Inl e, s1)
      | (Inr u, s1) \<Rightarrow> stop_each w rest s1)"

definition scan_timeout :: "world \<Rightarrow> state \<Rightarrow> (exn + pyval) \<times> state" where
  "scan_timeout w s =
     (case get_objects_by_iface w ADAPTER_IFACE s of
        (adapters, s1) \<Rightarrow>
          (case stop_each w adapters s1 of
             (Inl e, s2) \<Rightarrow> (Inl e, s2)
           | (Inr u, s2) \<Rightarrow> (Inr PyNone, resume s2)))"

text \<open>
  \<^verbatim>\<open>_pair_ok\<close> and \<^verbatim>\<open>_pair_error\<close> (lines 178-185), for the device at path \<open>p\<close>. The
  name they log is \<^verbatim>\<open>self._if.object_name\<close>, which the interface proxy resolves to a
  method object without raising; the model's log line carries the path instead.
\<close>

definition pair_ok :: "path \<Rightarrow> state \<Rightarrow> state" where
  "pair_ok p s = resume (log Info (SuccessfullyPaired p) s)"

definition pair_error :: "path \<Rightarrow> string \<Rightarrow> state \<Rightarrow> state" where
  "pair_error p error s = resume (log Warning (PairingFailed p error) s)"

text \<open>The module-level signal handlers (lines 188-193).\<close>

definition properties_changed :: "path \<Rightarrow> state \<Rightarrow> state" where
  "properties_changed p s = log Info (PropertyChanged p) s"

definition interfaces_added :: "path \<Rightarrow> state \<Rightarrow> state" where
  "interfaces_added p s = log Info (AddedInterfaces p) s"

text \<open>
  One iteration of the GLib main loop dispatches one event to the callbacks registered
  for it:
  \<^item> a signal goes to every receiver added with \<^verbatim>\<open>add_signal_receiver\<close> that matches it
    (the \<^verbatim>\<open>PropertiesChanged\<close> receiver matches on \<^verbatim>\<open>arg0 = "org.bluez.Device1"\<close>);
  \<^item> an elapsed timeout calls \<^verbatim>\<open>_scan_timeout\<close>; the callback returns \<^verbatim>\<open>None\<close>, or
    raises (the binding prints the exception and carries on): either way the source is
    removed and the loop goes on unless \<^verbatim>\<open>quit()\<close> was called;
  \<^item> the return or the error of \<^verbatim>\<open>Pair()\<close> goes to the \<^verbatim>\<open>reply_handler\<close> or the
    \<^verbatim>\<open>error_handler\<close> of the pending call.
  An event nothing is registered for is dropped.
\<close>

fun deliver :: "event \<Rightarrow> receiver \<Rightarrow> state \<Rightarrow> state" where
  "deliver (InterfacesAdded p) InterfacesAddedReceiver s = interfaces_added p s"
| "deliver (PropertiesChanged i p) PropertiesChangedReceiver s =
     (if i = DEVICE_IFACE then properties_changed p s else s)"
| "deliver e r s = s"

fun dispatch :: "world \<Rightarrow> event \<Rightarrow> state \<Rightarrow> state" where
  "dispatch w TimeoutElapsed s =
     (case timers s of
        [] \<Rightarrow> s
      | t # ts \<Rightarrow> snd (scan_timeout w (s\<lparr>timers := ts\<rparr>)))"
| "dispatch w (PairReply p) s =
     (if p \<in> set (pending s) then pair_ok p (s\<lparr>pending := remove1 p (pending s)\<rparr>) else s)"
| "dispatch w (PairError p error) s =
     (if p \<in> set (pending s) then pair_error p error (s\<lparr>pending := remove1 p (pending s)\<rparr>)
      else s)"
| "dispatch w e s = fold (deliver e) (receivers s) s"

text \<open>
  \<^verbatim>\<open>GObject.MainLoop.run()\<close>: dispatch events until a callback has called \<^verbatim>\<open>quit()\<close>.
  When the events run out first, the loop blocks for ever and \<^verbatim>\<open>run()\<close> never returns:
  the result \<open>None\<close>.
\<close>

fun main_loop :: "world \<Rightarrow> event list \<Rightarrow> state \<Rightarrow> state option" where
  "main_loop w [] s = None"
| "main_loop w (e # es) s =
     (let s1 = dispatch w e s
      in if running s1 then main_loop w es s1 else Some (s1\<lparr>queue := es\<rparr>))"

definition run :: "world \<Rightarrow> state \<Rightarrow> state option" where
  "run w s = main_loop w (queue s) ((emit LoopRun s)\<lparr>running := True\<rparr>)"

text \<open>\<^verbatim>\<open>wait\<close> (lines 99-100).\<close>

definition wait :: "world \<Rightarrow> state \<Rightarrow> state option" where
  "wait w s = run w s"

section \<open>\<^verbatim>\<open>BtDbusManager.scan\<close>\<close>

text \<open>
  The loop of lines 115-120: \<^verbatim>\<open>StopDiscovery()\<close> inside \<^verbatim>\<open>try\<close> ... \<^verbatim>\<open>except
  DBusException: pass\<close>, then \<^verbatim>\<open>StartDiscovery()\<close> outside of it.
\<close>

fun start_each :: "world \<Rightarrow> path list \<Rightarrow> state \<Rightarrow> (exn + unit) \<times> state" where
  "start_each w [] s = (Inr (), s)"
| "start_each w (adapter # rest) s =
     (case invoke w (StopDiscovery adapter) s of
        (r, s1) \<Rightarrow>
          (case invoke w (StartDiscovery adapter) s1 of
             (Inl e, s2) \<Rightarrow> (Inl e, s2)
           | (Inr u, s2) \<Rightarrow> start_each w rest s2))"

definition add_signal_receiver :: "receiver \<Rightarrow> state \<Rightarrow> state" where
  "add_signal_receiver r s = (emit (AddSignalReceiver r) s)\<lparr>receivers := receivers s @ [r]\<rparr>"

definition timeout_add_seconds :: "nat \<Rightarrow> state \<Rightarrow> state" where
  "timeout_add_seconds t s = (emit (TimeoutAddSeconds t) s)\<lparr>timers := timers s @ [t]\<rparr>"

text \<open>
  \<^verbatim>\<open>scan\<close> (lines 105-122) has no \<^verbatim>\<open>return\<close> statement: when it returns, it returns
  \<^verbatim>\<open>None\<close>. The outer \<open>None\<close> is a call that never returns.
\<close>

definition scan :: "world \<Rightarrow> nat \<Rightarrow> state \<Rightarrow> ((exn + pyval) \<times> state) option" where
  "scan w timeout s =
     (case get_objects_by_iface w ADAPTER_IFACE
             (add_signal_receiver PropertiesChangedReceiver
               (add_signal_receiver InterfacesAddedReceiver s)) of
        (adapters, s1) \<Rightarrow>
          (case start_each w adapters s1 of
             (Inl e, s2) \<Rightarrow> Some (Inl e, s2)
           | (Inr u, s2) \<Rightarrow>
               (case run w (timeout_add_seconds timeout s2) of
                  None \<Rightarrow> None
                | Some s3 \<Rightarrow> Some (Inr PyNone, s3))))"

section \<open>\<^verbatim>\<open>BtAdapter\<close>\<close>

text \<open>An adapter object stands for its object path; \<^verbatim>\<open>_prop_if\<close> is its properties interface.\<close>

definition prop_get :: "world \<Rightarrow> path \<Rightarrow> string \<Rightarrow> string \<Rightarrow> state \<Rightarrow> (exn + pyval) \<times> state" where
  "prop_get w p iface name s =
     (case invoke w (GetProp p iface name) s of
        (Inl e, s1) \<Rightarrow> (Inl e, s1)
      | (Inr u, s1) \<Rightarrow> (Inr (prop_value w (trace s) p name), s1))"

definition set_bool_prop :: "world \<Rightarrow> path \<Rightarrow> string \<Rightarrow> bool \<Rightarrow> state \<Rightarrow> (exn + unit) \<times> state" where
  "set_bool_prop w p prop_name v s =
     invoke w (SetProp p IFACE prop_name (if v then PyTrue else PyFalse)) s"

text \<open>\<^verbatim>\<open>object_path.split('/')[-1]\<close>: what follows the last slash.\<close>

definition last_component :: "path \<Rightarrow> string" where
  "last_component p = rev (takeWhile (\<lambda>c. c \<noteq> CHR ''/'') (rev p))"

text \<open>
  \<^verbatim>\<open>ensure_powered\<close> (lines 138-149). The handler calls \<^verbatim>\<open>get_dbus_message()\<close> on
  whatever exception it caught, which only a \<^verbatim>\<open>DBusException\<close> has.
\<close>

definition ensure_powered :: "world \<Rightarrow> path \<Rightarrow> state \<Rightarrow> (exn + pyval) \<times> state" where
  "ensure_powered w p s =
     (case prop_get w p IFACE ''Powered'' s of
        (Inl e, s1) \<Rightarrow> (Inl e, s1)
      | (Inr powered, s1) \<Rightarrow>
          (let s2 = log Info (PoweringOn (last_component p)) s1
           in if truthy powered then (Inr PyNone, log Info AlreadyPowered s2)
              else (case set_bool_prop w p ''Powered'' True s2 of
                      (Inr u, s3) \<Rightarrow> (Inr PyNone, log Info PoweredOn s3)
                    | (Inl (DBusException m), s3) \<Rightarrow> (Inr PyNone, log Error (FailedToPowerOn m) s3)
                    | (Inl e, s3) \<Rightarrow> (Inl (AttributeError ''get_dbus_message''), s3))))"

section \<open>\<^verbatim>\<open>BtDevice\<close>\<close>

text \<open>
  \<^verbatim>\<open>pair\<close> (lines 156-169), for the device at path \<open>p\<close>: the asynchronous \<^verbatim>\<open>Pair()\<close>
  with its two handlers, \<^verbatim>\<open>wait()\<close>, then \<^verbatim>\<open>Connect()\<close> whose \<^verbatim>\<open>DBusException\<close> is
  logged. There is no \<^verbatim>\<open>return\<close> statement and nothing records which handler ran.
\<close>

definition pair :: "world \<Rightarrow> path \<Rightarrow> state \<Rightarrow> ((exn + pyval) \<times> state) option" where
  "pair w p s =
     (case wait w ((emit (PairAsync p) s)\<lparr>pending := pending s @ [p]\<rparr>) of
        None \<Rightarrow> None
      | Some s1 \<Rightarrow>
          (case invoke w (Connect p) s1 of
             (Inr u, s2) \<Rightarrow> Some (Inr PyNone, s2)
           | (Inl (DBusException m), s2) \<Rightarrow> Some (Inr PyNone, log Error (FailedToConnect m) s2)
           | (Inl e, s2) \<Rightarrow> Some (Inl e, s2)))"

text \<open>\<^verbatim>\<open>unpair\<close> (lines 172-175).\<close>

definition unpair :: "world \<Rightarrow> path \<Rightarrow> state \<Rightarrow> (exn + pyval) \<times> state" where
  "unpair w p s =
     (case invoke w (Disconnect p) s of
        (Inl e, s1) \<Rightarrow> (Inl e, s1)
      | (Inr u, s1) \<Rightarrow> (Inr PyNone, s1))"

text \<open>The state of a fresh \<^verbatim>\<open>BtDbusManager\<close> whose loop will be offered the events \<open>evs\<close>.\<close>

definition fresh :: "event list \<Rightarrow> state" where
  "fresh evs = \<lparr>trace = [], receivers = [], timers = [], pending = [], running = False, queue = evs\<rparr>"

section \<open>Observations on traces\<close>

text \<open>The log lines of the two signal handlers.\<close>

fun signal_log :: "action \<Rightarrow> bool" where
  "signal_log (Log Info (PropertyChanged p)) = True"
| "signal_log (Log Info (AddedInterfaces p)) = True"
| "signal_log a = False"

text \<open>
  The only record \<^verbatim>\<open>pair\<close> leaves of how a pairing ended is the log line of the handler
  that ran: \<^verbatim>\<open>_pair_ok\<close> (success) or \<^verbatim>\<open>_pair_error\<close> (failure, with the reason).
\<close>

datatype outcome = Success | Failure string



text \<open>The events that complete a \<^verbatim>\<open>Pair()\<close> call on the device at \<open>p\<close>, and what each reports.\<close>

fun completion :: "path \<Rightarrow> event \<Rightarrow> bool" where
  "completion p (PairReply q) = (q = p)"
| "completion p (PairError q reason) = (q = p)"
| "completion p e = False"

fun reported :: "event \<Rightarrow> outcome" where
  "reported (PairError q reason) = Failure reason"
| "reported e = Success"

fun handler_log :: "path \<Rightarrow> outcome \<Rightarrow> action" where
  "handler_log p Success = Log Info (SuccessfullyPaired p)"
| "handler_log p (Failure reason) = Log Warning (PairingFailed p reason)"

text \<open>
  An event is quiet in a state when dispatching it cannot call \<^verbatim>\<open>quit()\<close>: a signal,
  an elapsed timeout with no timer armed, a \<^verbatim>\<open>Pair()\<close> completion nobody waits for.
\<close>

fun quiet :: "state \<Rightarrow> event \<Rightarrow> bool" where
  "quiet s TimeoutElapsed = (timers s = [])"
| "quiet s (PairReply p) = (p \<notin> set (pending s))"
| "quiet s (PairError p reason) = (p \<notin> set (pending s))"
| "quiet s e = True"

text \<open>
  Between calls the manager is idle: no timer is armed and no \<^verbatim>\<open>Pair()\<close> awaits its
  reply. A fresh manager is idle, and every call of the module that returns leaves it
  idle (\<open>idle_fresh\<close> and the \<open>_idle\<close> lemmas below).
\<close>

definition idle :: "state \<Rightarrow> bool" where
  "idle s = (timers s = [] \<and> pending s = [])"

text \<open>
  The adapters \<^verbatim>\<open>_get_objects_by_iface(ADAPTER_IFACE)\<close> lists when it is called after the
  trace \<open>h\<close>, and the calls that start or stop discovery.
\<close>

definition adapters_at :: "world \<Rightarrow> action list \<Rightarrow> path list" where
  "adapters_at w h = fst (get_objects_by_iface w ADAPTER_IFACE
     \<lparr>trace = h, receivers = [], timers = [], pending = [], running = False, queue = []\<rparr>)"

fun discovery_call :: "action \<Rightarrow> bool" where
  "discovery_call (Invoke (StopDiscovery a) r) = True"
| "discovery_call (Invoke (StartDiscovery a) r) = True"
| "discovery_call a = False"

fun adapter_of :: "action \<Rightarrow> path option" where
  "adapter_of (Invoke (StopDiscovery a) r) = Some a"
| "adapter_of (Invoke (StartDiscovery a) r) = Some a"
| "adapter_of x = None"

text \<open>
  Two facts read off a trace \<open>h\<close>. The loop is running after \<open>h\<close> when the last of its
  \<^verbatim>\<open>run()\<close> and \<^verbatim>\<open>quit()\<close> entries is a \<^verbatim>\<open>run()\<close>. This client's discovery is
  active on the adapter \<open>a\<close> after \<open>h\<close> when the last discovery call on \<open>a\<close> that
  succeeded is a \<^verbatim>\<open>StartDiscovery()\<close>.
\<close>

definition in_loop :: "action list \<Rightarrow> bool" where
  "in_loop h =
     fold (\<lambda>x r. if x = LoopRun then True else if x = LoopQuit then False else r) h False"

definition discovering :: "action list \<Rightarrow> path \<Rightarrow> bool" where
  "discovering h a =
     fold (\<lambda>x d. if x = Invoke (StartDiscovery a) None then True
                  else if x = Invoke (StopDiscovery a) None then False else d) h False"

text \<open>
  What the bus answers to the \<^verbatim>\<open>StartDiscovery()\<close> of line 120 on the adapter \<open>a\<close>, when
  the \<^verbatim>\<open>StopDiscovery()\<close> attempt of line 117 was made after the trace \<open>h\<close>.
\<close>

definition start_after_stop :: "world \<Rightarrow> action list \<Rightarrow> path \<Rightarrow> string option" where
  "start_after_stop w h a =
     refuses w (h @ [Invoke (StopDiscovery a) (refuses w h (StopDiscovery a))]) (StartDiscovery a)"

text \<open>
  What the specification calls the devices known to the catalog that pass the device
  filter, for an object tree \<open>m\<close>: the paths with a non-empty \<^verbatim>\<open>Device1\<close> entry whose
  properties the filter accepts, in the tree's order.
\<close>

definition selected :: "int \<Rightarrow> pyval dict \<Rightarrow> ifaces \<Rightarrow> bool" where
  "selected category filters ifs =
     (case map_of ifs DEVICE_IFACE of
        None \<Rightarrow> False
      | Some obj \<Rightarrow> obj \<noteq> [] \<and> visit category filters obj = Yielded)"

definition matching :: "int \<Rightarrow> pyval dict \<Rightarrow> managed \<Rightarrow> path list" where
  "matching category filters m = map fst (filter (\<lambda>(p, ifs). selected category filters ifs) m)"

text \<open>The requests to set \<^verbatim>\<open>Powered\<close> on the adapter at \<open>p\<close> in a trace, failed ones included.\<close>

fun power_set :: "path \<Rightarrow> action \<Rightarrow> bool" where
  "power_set p (Invoke (SetProp q iface name v) r) = (q = p \<and> name = ''Powered'')"
| "power_set p a = False"

definition power_sets :: "path \<Rightarrow> action list \<Rightarrow> nat" where
  "power_sets p tr = length (filter (power_set p) tr)"

section \<open>Example worlds\<close>

text \<open>
  One adapter, not powered, and two devices: a keyboard (class \<^verbatim>\<open>0x2540\<close>) and a device
  of class 0, neither paired.
\<close>

definition hci0 :: "path \<times> ifaces" where
  "hci0 = (''/hci0'', [(ADAPTER_IFACE, [(''Powered'', PyFalse)])])"

definition hci1 :: "path \<times> ifaces" where
  "hci1 = (''/hci1'', [(ADAPTER_IFACE, [(''Powered'', PyFalse)])])"

definition dev_1 :: "path \<times> ifaces" where
  "dev_1 = (''/hci0/dev_1'', [(DEVICE_IFACE, [(''Class'', PInt BT_KEYBOARD), (''Paired'', PyFalse)])])"

definition dev_2 :: "path \<times> ifaces" where
  "dev_2 = (''/hci0/dev_2'', [(DEVICE_IFACE, [(''Class'', PInt 0), (''Paired'', PyFalse)])])"

text \<open>Nothing changes and no call fails.\<close>

definition calm :: world where
  "calm = \<lparr>objects = (\<lambda>h. [hci0, dev_1, dev_2]),
           refuses = (\<lambda>h c. None),
           prop_value = (\<lambda>h p name. PyFalse)\<rparr>"

text \<open>The first device is gone after the first \<^verbatim>\<open>GetManagedObjects()\<close>.\<close>

definition vanishing :: world where
  "vanishing = \<lparr>objects = (\<lambda>h. if h = [] then [hci0, dev_1, dev_2] else [hci0, dev_2]),
                refuses = (\<lambda>h c. None),
                prop_value = (\<lambda>h p name. PyFalse)\<rparr>"

text \<open>
  Two adapters, the first of them not ready: its \<^verbatim>\<open>StartDiscovery()\<close> fails.
\<close>

definition not_ready :: world where
  "not_ready = \<lparr>objects = (\<lambda>h. [hci0, hci1, dev_1, dev_2]),
                refuses = (\<lambda>h c. if c = StartDiscovery ''/hci0'' then Some ''NotReady'' else None),
                prop_value = (\<lambda>h p name. PyFalse)\<rparr>"

text \<open>
  Two adapters; once the loop runs, \<^verbatim>\<open>StopDiscovery()\<close> fails on the first (its
  discovery has ended by itself).
\<close>

definition stop_fails :: world where
  "stop_fails = \<lparr>objects = (\<lambda>h. [hci0, hci1]),
                 refuses = (\<lambda>h c. if c = StopDiscovery ''/hci0'' \<and> LoopRun \<in> set h
                                    then Some ''No discovery started'' else None),
                 prop_value = (\<lambda>h p name. PyFalse)\<rparr>"

text \<open>The adapter is blocked: setting \<^verbatim>\<open>Powered\<close> fails and it stays off.\<close>

definition blocked :: world where
  "blocked = \<lparr>objects = (\<lambda>h. [hci0]),
              refuses = (\<lambda>h c. case c of SetProp p i n v \<Rightarrow> Some ''Blocked'' | _ \<Rightarrow> None),
              prop_value = (\<lambda>h p name. PyFalse)\<rparr>"

text \<open>
  Nothing is being discovered when the scan begins, so its first \<^verbatim>\<open>StopDiscovery()\<close>
  fails; once the loop runs, stopping succeeds.
\<close>

definition nothing_to_stop :: world where
  "nothing_to_stop = \<lparr>objects = (\<lambda>h. [hci0, dev_1, dev_2]),
                      refuses = (\<lambda>h c. if c = StopDiscovery ''/hci0'' \<and> LoopRun \<notin> set h
                                         then Some ''No discovery started'' else None),
                      prop_value = (\<lambda>h p name. PyFalse)\<rparr>"

text \<open>
  The bus keeps to the discovery this client has started: \<^verbatim>\<open>StopDiscovery()\<close> fails
  unless the client's discovery is active on the adapter, \<^verbatim>\<open>StartDiscovery()\<close> fails
  when it already is.
\<close>

definition bluez :: world where
  "bluez = \<lparr>objects = (\<lambda>h. [hci0, dev_1, dev_2]),
            refuses = (\<lambda>h c. case c of
                          StopDiscovery a \<Rightarrow>
                            if discovering h a then None else Some ''No discovery started''
                        | StartDiscovery a \<Rightarrow>
                            if discovering h a then Some ''InProgress'' else None
                        | _ \<Rightarrow> None),
            prop_value = (\<lambda>h p name. PyFalse)\<rparr>"

text \<open>The adapter powers on when asked: once a set has succeeded, \<^verbatim>\<open>Powered\<close> reads true.\<close>

definition powers_on :: world where
  "powers_on = \<lparr>objects = (\<lambda>h. [hci0]),
                refuses = (\<lambda>h c. None),
                prop_value = (\<lambda>h p name.
                   if Invoke (SetProp p IFACE name PyTrue) None \<in> set h then PyTrue else PyFalse)\<rparr>"

section \<open>Properties of the device filter\<close>

lemma filter_loop_accepts:
  "set ks \<subseteq> set (keys filters) \<Longrightarrow>
   filter_loop obj filters ks = Inr False \<longleftrightarrow> (\<forall>k \<in> set ks. map_of obj k = map_of filters k)"
proof (induction ks)
  case Nil
  show ?case by simp
next
  case (Cons k ks)
  from Cons.prems have "k \<in> fst ` set filters" by (simp add: keys_def)
  then obtain fv where fv: "map_of filters k = Some fv"
    by (metis domD dom_map_of_conv_image_fst)
  from Cons.prems have "set ks \<subseteq> set (keys filters)" by simp
  with Cons.IH fv show ?case
    by (cases "map_of obj k") (auto simp: getitem_def)
qed

lemma filter_loop_raises_KeyError:
  "filter_loop obj filters ks = Inl e \<Longrightarrow> \<exists>k. e = KeyError k"
  by (induction ks) (auto simp: getitem_def split: option.splits if_splits)

lemma try_body_raises_KeyError:
  "try_body category filters obj = Inl e \<Longrightarrow> \<exists>k. e = KeyError k"
  by (auto simp: try_body_def getitem_def split: if_splits option.splits sum.splits bool.splits
           dest: filter_loop_raises_KeyError)

lemma try_body_yields:
  "try_body category filters obj = Inr Yield \<longleftrightarrow>
     (category = BT_ANY \<or> map_of obj ''Class'' = Some (PInt category)) \<and>
     filter_loop obj filters (keys filters) = Inr False"
  by (auto simp: try_body_def getitem_def split: option.splits sum.splits bool.splits)

text \<open>
  C4. The device filter of \<^verbatim>\<open>get_bt_devices\<close> yields a device with properties \<open>obj\<close>
  exactly when the class filter is the wildcard or \<^verbatim>\<open>Class\<close> is present and equal to
  it, and every key of the filters is present in \<open>obj\<close> with the filter's value. A missing
  \<^verbatim>\<open>Class\<close> or filter property is therefore a non-match, and no exception escapes the
  \<^verbatim>\<open>try\<close> statement. (Lemma \<open>get_bt_devices_static\<close> below lifts this to the whole
  enumeration of an object tree that does not change.)
\<close>

theorem device_filter_matches:
  "(visit category filters obj = Yielded \<longleftrightarrow>
      (category = BT_ANY \<or> map_of obj ''Class'' = Some (PInt category)) \<and>
      (\<forall>k \<in> set (keys filters). map_of obj k = map_of filters k))
   \<and> (\<forall>e. visit category filters obj \<noteq> Escaped e)"
proof
  have "visit category filters obj = Yielded \<longleftrightarrow> try_body category filters obj = Inr Yield"
    by (auto simp: visit_def split: sum.splits verdict.splits exn.splits)
  also have "\<dots> \<longleftrightarrow> (category = BT_ANY \<or> map_of obj ''Class'' = Some (PInt category)) \<and>
      filter_loop obj filters (keys filters) = Inr False"
    by (rule try_body_yields)
  also have "filter_loop obj filters (keys filters) = Inr False \<longleftrightarrow>
      (\<forall>k \<in> set (keys filters). map_of obj k = map_of filters k)"
    by (rule filter_loop_accepts) simp
  finally show "visit category filters obj = Yielded \<longleftrightarrow>
      (category = BT_ANY \<or> map_of obj ''Class'' = Some (PInt category)) \<and>
      (\<forall>k \<in> set (keys filters). map_of obj k = map_of filters k)" .
next
  show "\<forall>e. visit category filters obj \<noteq> Escaped e"
    by (auto simp: visit_def split: sum.splits verdict.splits exn.splits
             dest: try_body_raises_KeyError)
qed

theorem device_filter_matches_witness:
  "visit BT_KEYBOARD [(''Paired'', PyFalse)] [(''Class'', PInt 9536), (''Paired'', PyFalse)] = Yielded
   \<and> visit BT_KEYBOARD [(''Paired'', PyFalse)] [(''Paired'', PyFalse)] \<noteq> Yielded
   \<and> visit BT_ANY [(''Paired'', PyTrue)] [(''Class'', PInt 9536)] \<noteq> Yielded"
  using device_filter_matches [of BT_KEYBOARD "[(''Paired'', PyFalse)]"
          "[(''Class'', PInt 9536), (''Paired'', PyFalse)]"]
        device_filter_matches [of BT_KEYBOARD "[(''Paired'', PyFalse)]" "[(''Paired'', PyFalse)]"]
        device_filter_matches [of BT_ANY "[(''Paired'', PyTrue)]" "[(''Class'', PInt 9536)]"]
  by (simp add: keys_def BT_KEYBOARD_def BT_ANY_def)

lemma filter_loop_cong_obj:
  "\<forall>k \<in> set ks. map_of obj k = map_of obj' k \<Longrightarrow>
   filter_loop obj filters ks = filter_loop obj' filters ks"
  by (induction ks) (auto simp: getitem_def split: option.splits sum.splits)

lemmas world_defs = calm_def vanishing_def not_ready_def stop_fails_def blocked_def powers_on_def
  nothing_to_stop_def bluez_def
  hci0_def hci1_def dev_1_def dev_2_def

lemmas const_defs = IFACE_def ADAPTER_IFACE_def DEVICE_IFACE_def BT_ANY_def BT_KEYBOARD_def

lemmas op_defs = get_bt_devices_def get_objects_by_iface_def get_object_by_path_def provides_def
  getitem_def visit_def try_body_def keys_def emit_def log_def fresh_def invoke_def

text \<open>
  C10, as amended. \<^verbatim>\<open>BT_ANY\<close> is 0, and with \<^verbatim>\<open>category = 0\<close> the class test is skipped:
  the verdict on a device depends on its properties only through the keys named in
  \<^verbatim>\<open>filters\<close>, so \<^verbatim>\<open>Class\<close> is read only when \<^verbatim>\<open>filters\<close> names it. Through the
  \<^verbatim>\<open>category\<close> argument class 0 cannot be told from the wildcard; through
  \<^verbatim>\<open>filters = {'Class': 0}\<close> exactly the devices of class 0 are yielded.
\<close>

theorem wildcard_ignores_class:
  "BT_ANY = 0
   \<and> ((\<forall>k \<in> set (keys filters). map_of obj k = map_of obj' k) \<longrightarrow>
        visit 0 filters obj = visit 0 filters obj')
   \<and> (visit 0 [(''Class'', PInt 0)] obj = Yielded \<longleftrightarrow> map_of obj ''Class'' = Some (PInt 0))"
proof (intro conjI impI)
  show "BT_ANY = 0" by (simp add: BT_ANY_def)
next
  assume "\<forall>k \<in> set (keys filters). map_of obj k = map_of obj' k"
  then have "filter_loop obj filters (keys filters) = filter_loop obj' filters (keys filters)"
    by (rule filter_loop_cong_obj)
  then show "visit 0 filters obj = visit 0 filters obj'"
    by (simp add: visit_def try_body_def BT_ANY_def)
next
  show "visit 0 [(''Class'', PInt 0)] obj = Yielded \<longleftrightarrow> map_of obj ''Class'' = Some (PInt 0)"
    by (auto simp: visit_def try_body_def BT_ANY_def keys_def getitem_def split: option.splits)
qed

theorem wildcard_ignores_class_witness:
  "visit 0 [(''Paired'', PyFalse)] [(''Class'', PInt 0), (''Paired'', PyFalse)]
     = visit 0 [(''Paired'', PyFalse)] [(''Class'', PInt 9536), (''Paired'', PyFalse)]"
  using wildcard_ignores_class [of "[(''Paired'', PyFalse)]"
      "[(''Class'', PInt 0), (''Paired'', PyFalse)]" "[(''Class'', PInt 9536), (''Paired'', PyFalse)]"]
  by (simp add: keys_def)

text \<open>
  Against C10 as stated: a call with \<^verbatim>\<open>category = 0\<close> and \<^verbatim>\<open>filters = {'Class': 0}\<close>
  reads \<^verbatim>\<open>Class\<close> and yields the device of class 0 only, not the keyboard.
\<close>

theorem class_zero_selected_by_filters:
  "fst (get_bt_devices calm 0 [(''Class'', PInt 0)] (fresh [])) = ([''/hci0/dev_2''], None)"
  by (simp add: world_defs const_defs op_defs)

section \<open>Enumeration against a changing object tree\<close>

text \<open>
  C5, where the code fails it. The first device is enumerated and has vanished when line
  74 looks it up: the \<^verbatim>\<open>KeyError\<close> is raised before the \<^verbatim>\<open>try\<close>, leaves the generator,
  and the second device, still there and matching, is never yielded.
\<close>

theorem vanished_device_aborts_enumeration:
  "get_bt_devices vanishing BT_ANY [] (fresh []) =
     (([], Some (KeyError ''/hci0/dev_1'')),
      \<lparr>trace = [GetManagedObjects, GetManagedObjects], receivers = [], timers = [],
         pending = [], running = False, queue = []\<rparr>)"
  by (simp add: world_defs const_defs op_defs)

section \<open>The timer callback\<close>

text \<open>
  C7, where the code fails it. With two adapters, a \<^verbatim>\<open>StopDiscovery()\<close> that fails on
  the first one ends \<^verbatim>\<open>_scan_timeout\<close>: the second adapter is not stopped and
  \<^verbatim>\<open>quit()\<close> is not called, so the \<^verbatim>\<open>scan\<close> that armed the timer never returns.
\<close>

theorem stop_failure_in_timeout:
  "scan_timeout stop_fails
      \<lparr>trace = [LoopRun], receivers = [], timers = [], pending = [], running = True, queue = []\<rparr> =
     (Inl (DBusException ''No discovery started''),
      \<lparr>trace = [LoopRun, GetManagedObjects,
                 Invoke (StopDiscovery ''/hci0'') (Some ''No discovery started'')],
         receivers = [], timers = [], pending = [], running = True, queue = []\<rparr>)
   \<and> scan stop_fails 5 (fresh [TimeoutElapsed]) = None"
  by (simp add: world_defs const_defs op_defs scan_timeout_def scan_def run_def
       add_signal_receiver_def timeout_add_seconds_def resume_def)

section \<open>The main loop\<close>

lemma deliver_log:
  "\<exists>logs. deliver e r s = s\<lparr>trace := trace s @ logs\<rparr> \<and> list_all signal_log logs"
proof -
  have nil: "deliver e r s = s \<Longrightarrow> ?thesis"
  proof -
    assume "deliver e r s = s"
    then have "deliver e r s = s\<lparr>trace := trace s @ []\<rparr> \<and> list_all signal_log []" by simp
    then show ?thesis by blast
  qed
  have one: "deliver e r s = s\<lparr>trace := trace s @ [a]\<rparr> \<Longrightarrow> signal_log a \<Longrightarrow> ?thesis" for a
  proof -
    assume "deliver e r s = s\<lparr>trace := trace s @ [a]\<rparr>" "signal_log a"
    then have "deliver e r s = s\<lparr>trace := trace s @ [a]\<rparr> \<and> list_all signal_log [a]" by simp
    then show ?thesis by blast
  qed
  have "deliver e r s = s
      \<or> (\<exists>p. deliver e r s = s\<lparr>trace := trace s @ [Log Info (AddedInterfaces p)]\<rparr>)
      \<or> (\<exists>p. deliver e r s = s\<lparr>trace := trace s @ [Log Info (PropertyChanged p)]\<rparr>)"
    by (cases e; cases r)
       (auto simp: interfaces_added_def properties_changed_def log_def emit_def)
  then show ?thesis
  proof (elim disjE exE)
    assume "deliver e r s = s"
    then show ?thesis by (rule nil)
  next
    fix p assume "deliver e r s = s\<lparr>trace := trace s @ [Log Info (AddedInterfaces p)]\<rparr>"
    then show ?thesis by (rule one) simp
  next
    fix p assume "deliver e r s = s\<lparr>trace := trace s @ [Log Info (PropertyChanged p)]\<rparr>"
    then show ?thesis by (rule one) simp
  qed
qed

lemma fold_deliver_log:
  "\<exists>logs. fold (deliver e) rs s = s\<lparr>trace := trace s @ logs\<rparr> \<and> list_all signal_log logs"
proof (induction rs arbitrary: s)
  case Nil
  have "fold (deliver e) [] s = s\<lparr>trace := trace s @ []\<rparr> \<and> list_all signal_log []" by simp
  then show ?case by blast
next
  case (Cons r rs)
  obtain l1 where l1: "deliver e r s = s\<lparr>trace := trace s @ l1\<rparr>" "list_all signal_log l1"
    using deliver_log by blast
  obtain l2 where l2: "fold (deliver e) rs (deliver e r s) = (deliver e r s)\<lparr>trace := trace (deliver e r s) @ l2\<rparr>"
      "list_all signal_log l2"
    using Cons.IH by blast
  have "fold (deliver e) (r # rs) s = s\<lparr>trace := trace s @ (l1 @ l2)\<rparr> \<and> list_all signal_log (l1 @ l2)"
    using l1 l2 by simp
  then show ?case by blast
qed

lemma dispatch_quiet:
  assumes "quiet s e"
  shows "\<exists>logs. dispatch w e s = s\<lparr>trace := trace s @ logs\<rparr> \<and> list_all signal_log logs"
proof (cases e)
  case (InterfacesAdded p)
  then show ?thesis using fold_deliver_log [of e "receivers s" s] by simp
next
  case (PropertiesChanged i p)
  then show ?thesis using fold_deliver_log [of e "receivers s" s] by simp
next
  case TimeoutElapsed
  with assms have "dispatch w e s = s\<lparr>trace := trace s @ []\<rparr> \<and> list_all signal_log []" by simp
  then show ?thesis by blast
next
  case (PairReply p)
  with assms have "dispatch w e s = s\<lparr>trace := trace s @ []\<rparr> \<and> list_all signal_log []" by simp
  then show ?thesis by blast
next
  case (PairError p r)
  with assms have "dispatch w e s = s\<lparr>trace := trace s @ []\<rparr> \<and> list_all signal_log []" by simp
  then show ?thesis by blast
qed

lemma quiet_trace [simp]: "quiet (s\<lparr>trace := tr\<rparr>) e = quiet s e"
  by (cases e) simp_all

lemma main_loop_quiet_prefix:
  assumes "running s" and "\<forall>e \<in> set pre. quiet s e"
  shows "\<exists>logs. main_loop w (pre @ rest) s = main_loop w rest (s\<lparr>trace := trace s @ logs\<rparr>)
           \<and> list_all signal_log logs"
  using assms
proof (induction pre arbitrary: s)
  case Nil
  have "main_loop w ([] @ rest) s = main_loop w rest (s\<lparr>trace := trace s @ []\<rparr>) \<and> list_all signal_log []"
    by simp
  then show ?case by blast
next
  case (Cons e pre)
  from Cons.prems have "quiet s e" by simp
  then obtain l1 where l1: "dispatch w e s = s\<lparr>trace := trace s @ l1\<rparr>" "list_all signal_log l1"
    using dispatch_quiet by blast
  let ?s1 = "s\<lparr>trace := trace s @ l1\<rparr>"
  have "running ?s1" "\<forall>e \<in> set pre. quiet ?s1 e" using Cons.prems by simp_all
  then obtain l2 where l2: "main_loop w (pre @ rest) ?s1 = main_loop w rest (?s1\<lparr>trace := trace ?s1 @ l2\<rparr>)"
      "list_all signal_log l2"
    using Cons.IH by blast
  have "main_loop w ((e # pre) @ rest) s = main_loop w rest (s\<lparr>trace := trace s @ (l1 @ l2)\<rparr>)
        \<and> list_all signal_log (l1 @ l2)"
    using l1 l2 Cons.prems(1) by simp
  then show ?case by blast
qed

section \<open>Pairing\<close>

lemma quiet_while_pairing:
  "timers s = [] \<Longrightarrow> pending s = [p] \<Longrightarrow> \<not> completion p e \<Longrightarrow> quiet s e"
  by (cases e) auto

lemma dispatch_completion:
  assumes "pending s = [p]" and "completion p c"
  shows "dispatch w c s =
           s\<lparr>trace := trace s @ [handler_log p (reported c), LoopQuit], pending := [], running := False\<rparr>"
  using assms
  by (cases c) (auto simp: pair_ok_def pair_error_def resume_def log_def emit_def)

lemma wait_for_completion:
  assumes "timers s = []" and "pending s = [p]"
      and "queue s = pre @ c # post" and "\<forall>e \<in> set pre. \<not> completion p e" and "completion p c"
  shows "\<exists>logs. wait w s =
           Some (s\<lparr>trace := trace s @ LoopRun # logs @ [handler_log p (reported c), LoopQuit],
                   pending := [], running := False, queue := post\<rparr>)
           \<and> list_all signal_log logs"
proof -
  let ?s0 = "(emit LoopRun s)\<lparr>running := True\<rparr>"
  have "running ?s0" by simp
  moreover have "\<forall>e \<in> set pre. quiet ?s0 e"
    using assms by (auto intro!: quiet_while_pairing simp: emit_def)
  ultimately obtain logs where
    logs: "main_loop w (pre @ c # post) ?s0 = main_loop w (c # post) (?s0\<lparr>trace := trace ?s0 @ logs\<rparr>)"
      "list_all signal_log logs"
    using main_loop_quiet_prefix by blast
  let ?s1 = "?s0\<lparr>trace := trace ?s0 @ logs\<rparr>"
  have "pending ?s1 = [p]" using assms by (simp add: emit_def)
  then have "dispatch w c ?s1 =
      ?s1\<lparr>trace := trace ?s1 @ [handler_log p (reported c), LoopQuit], pending := [], running := False\<rparr>"
    using assms(5) by (rule dispatch_completion)
  then have "main_loop w (c # post) ?s1 =
      Some (s\<lparr>trace := trace s @ LoopRun # logs @ [handler_log p (reported c), LoopQuit],
              pending := [], running := False, queue := post\<rparr>)"
    by (simp add: emit_def)
  with logs assms(3) show ?thesis
    by (auto simp: wait_def run_def)
qed

lemma pair_run:
  assumes "timers s = []" and "pending s = []"
      and "queue s = pre @ c # post" and "\<forall>e \<in> set pre. \<not> completion p e" and "completion p c"
  shows "\<exists>logs m. pair w p s =
           Some (Inr PyNone,
                 s\<lparr>trace := trace s @ PairAsync p # LoopRun # logs @
                             [handler_log p (reported c), LoopQuit, Invoke (Connect p) m] @
                             (case m of None \<Rightarrow> [] | Some e \<Rightarrow> [Log Error (FailedToConnect e)]),
                    running := False, queue := post\<rparr>)
           \<and> list_all signal_log logs"
proof -
  let ?s0 = "(emit (PairAsync p) s)\<lparr>pending := pending s @ [p]\<rparr>"
  have "timers ?s0 = []" "pending ?s0 = [p]" "queue ?s0 = pre @ c # post"
    using assms by (simp_all add: emit_def)
  then obtain logs where
    w: "wait w ?s0 =
          Some (?s0\<lparr>trace := trace ?s0 @ LoopRun # logs @ [handler_log p (reported c), LoopQuit],
                   pending := [], running := False, queue := post\<rparr>)"
    and logs: "list_all signal_log logs"
    using wait_for_completion [OF _ _ _ assms(4) assms(5)] by blast
  let ?s1 = "?s0\<lparr>trace := trace ?s0 @ LoopRun # logs @ [handler_log p (reported c), LoopQuit],
                   pending := [], running := False, queue := post\<rparr>"
  let ?m = "refuses w (trace ?s1) (Connect p)"
  have "pair w p s =
           Some (Inr PyNone,
                 s\<lparr>trace := trace s @ PairAsync p # LoopRun # logs @
                             [handler_log p (reported c), LoopQuit, Invoke (Connect p) ?m] @
                             (case ?m of None \<Rightarrow> [] | Some e \<Rightarrow> [Log Error (FailedToConnect e)]),
                    running := False, queue := post\<rparr>)"
    using w assms(2)
    by (cases "?m") (simp_all add: pair_def invoke_def emit_def log_def)
  with logs show ?thesis by blast
qed







text \<open>
  C1, as amended. When the first completion of the \<^verbatim>\<open>Pair()\<close> call is the failure
  callback with some reason (the manager being idle when \<^verbatim>\<open>pair\<close> is called: no scan
  timer armed, no other pairing in flight), \<^verbatim>\<open>pair\<close>
  logs a warning with the reason, quits the loop, and then issues \<^verbatim>\<open>Connect()\<close> on
  the device all the same (logging an error if that fails); it returns \<^verbatim>\<open>None\<close>, so the
  log line is its only report of the failure.
\<close>

theorem pair_failure_still_connects:
  assumes "timers s = []" and "pending s = []"
      and "queue s = pre @ PairError p reason # post"
      and "\<forall>e \<in> set pre. \<not> completion p e"
  shows "\<exists>s' logs m.
           pair w p s = Some (Inr PyNone, s') \<and>
           trace s' = trace s @ PairAsync p # LoopRun # logs @
                        [Log Warning (PairingFailed p reason), LoopQuit, Invoke (Connect p) m] @
                        (case m of None \<Rightarrow> [] | Some e \<Rightarrow> [Log Error (FailedToConnect e)]) \<and>
           list_all signal_log logs"
proof -
  have "completion p (PairError p reason)" by simp
  from pair_run [OF assms(1) assms(2) assms(3) assms(4) this, of w]
  obtain logs m where
    "pair w p s =
       Some (Inr PyNone,
             s\<lparr>trace := trace s @ PairAsync p # LoopRun # logs @
                         [handler_log p (reported (PairError p reason)), LoopQuit, Invoke (Connect p) m] @
                         (case m of None \<Rightarrow> [] | Some e \<Rightarrow> [Log Error (FailedToConnect e)]),
                running := False, queue := post\<rparr>)"
    and "list_all signal_log logs"
    by blast
  then show ?thesis
    by (intro exI [of _ logs] exI [of _ m] exI [of _ "s\<lparr>trace := tr, running := False, queue := post\<rparr>" for tr])
       simp
qed

theorem pair_failure_still_connects_witness:
  "timers (fresh [PairError ''/hci0/dev_1'' ''AuthenticationFailed'']) = []
   \<and> pending (fresh [PairError ''/hci0/dev_1'' ''AuthenticationFailed'']) = []
   \<and> (\<exists>s' logs m.
         pair calm ''/hci0/dev_1'' (fresh [PairError ''/hci0/dev_1'' ''AuthenticationFailed'']) =
           Some (Inr PyNone, s') \<and>
         trace s' = PairAsync ''/hci0/dev_1'' # LoopRun # logs @
                      [Log Warning (PairingFailed ''/hci0/dev_1'' ''AuthenticationFailed''), LoopQuit,
                       Invoke (Connect ''/hci0/dev_1'') m] @
                      (case m of None \<Rightarrow> [] | Some e \<Rightarrow> [Log Error (FailedToConnect e)]) \<and>
         list_all signal_log logs)"
  using pair_failure_still_connects
          [of "fresh [PairError ''/hci0/dev_1'' ''AuthenticationFailed'']" "[]"
              "''/hci0/dev_1''" "''AuthenticationFailed''" "[]" calm]
  by (simp add: fresh_def)

text \<open>
  Against C1 as stated: after the failure callback with reason \<^verbatim>\<open>AuthenticationFailed\<close>,
  \<^verbatim>\<open>pair\<close> returns \<^verbatim>\<open>None\<close> and the \<^verbatim>\<open>Connect()\<close> call is in the trace.
\<close>

theorem connect_issued_after_pairing_failure:
  "pair calm ''/hci0/dev_1'' (fresh [PairError ''/hci0/dev_1'' ''AuthenticationFailed'']) =
     Some (Inr PyNone,
           \<lparr>trace = [PairAsync ''/hci0/dev_1'', LoopRun,
                      Log Warning (PairingFailed ''/hci0/dev_1'' ''AuthenticationFailed''),
                      LoopQuit, Invoke (Connect ''/hci0/dev_1'') None],
              receivers = [], timers = [], pending = [], running = False, queue = []\<rparr>)"
  by (simp add: pair_def wait_def run_def pair_error_def resume_def calm_def fresh_def
        emit_def log_def invoke_def)




section \<open>Powering an adapter\<close>

lemma power_sets_append: "power_sets p (xs @ ys) = power_sets p xs + power_sets p ys"
  by (simp add: power_sets_def)

lemma ensure_powered_already:
  assumes "refuses w (trace s) (GetProp p IFACE ''Powered'') = None"
      and "truthy (prop_value w (trace s) p ''Powered'')"
  shows "ensure_powered w p s =
           (Inr PyNone,
            s\<lparr>trace := trace s @ [Invoke (GetProp p IFACE ''Powered'') None,
                                   Log Info (PoweringOn (last_component p)),
                                   Log Info AlreadyPowered]\<rparr>)"
  using assms by (simp add: ensure_powered_def prop_get_def invoke_def emit_def log_def)

lemma ensure_powered_trace:
  "\<exists>new. trace (snd (ensure_powered w p s)) = trace s @ new \<and> power_sets p new \<le> 1 \<and>
     (truthy (prop_value w (trace s) p ''Powered'') \<longrightarrow> power_sets p new = 0) \<and>
     (power_sets p new = 1 \<and> refuses w (trace s @ [Invoke (GetProp p IFACE ''Powered'') None,
            Log Info (PoweringOn (last_component p))]) (SetProp p IFACE ''Powered'' PyTrue) = None \<longrightarrow>
        Invoke (SetProp p IFACE ''Powered'' PyTrue) None \<in> set new)"
  by (cases "refuses w (trace s) (GetProp p IFACE ''Powered'')";
      cases "truthy (prop_value w (trace s) p ''Powered'')";
      cases "refuses w (trace s @ [Invoke (GetProp p IFACE ''Powered'') None,
            Log Info (PoweringOn (last_component p))]) (SetProp p IFACE ''Powered'' PyTrue)")
     (simp_all add: ensure_powered_def prop_get_def set_bool_prop_def invoke_def emit_def log_def
        power_sets_def)

lemma ensure_powered_bounds:
  "(refuses w (trace s) (GetProp p IFACE ''Powered'') = None \<and>
    truthy (prop_value w (trace s) p ''Powered'') \<longrightarrow>
      ensure_powered w p s =
        (Inr PyNone,
         s\<lparr>trace := trace s @ [Invoke (GetProp p IFACE ''Powered'') None,
                                Log Info (PoweringOn (last_component p)),
                                Log Info AlreadyPowered]\<rparr>))
   \<and> (truthy (prop_value w (trace s) p ''Powered'') \<longrightarrow>
        power_sets p (trace (snd (ensure_powered w p s))) = power_sets p (trace s))
   \<and> power_sets p (trace (snd (ensure_powered w p s))) \<le> power_sets p (trace s) + 1
   \<and> ((\<forall>h. refuses w h (SetProp p IFACE ''Powered'' PyTrue) = None) \<and>
       (\<forall>h. Invoke (SetProp p IFACE ''Powered'' PyTrue) None \<in> set h \<longrightarrow>
              truthy (prop_value w h p ''Powered'')) \<longrightarrow>
        power_sets p (trace (snd (ensure_powered w p (snd (ensure_powered w p s)))))
          \<le> power_sets p (trace s) + 1)"
proof (intro conjI impI)
  assume "refuses w (trace s) (GetProp p IFACE ''Powered'') = None \<and>
    truthy (prop_value w (trace s) p ''Powered'')"
  then show "ensure_powered w p s =
        (Inr PyNone,
         s\<lparr>trace := trace s @ [Invoke (GetProp p IFACE ''Powered'') None,
                                Log Info (PoweringOn (last_component p)),
                                Log Info AlreadyPowered]\<rparr>)"
    by (simp add: ensure_powered_already)
next
  assume "truthy (prop_value w (trace s) p ''Powered'')"
  then show "power_sets p (trace (snd (ensure_powered w p s))) = power_sets p (trace s)"
    using ensure_powered_trace [of w p s] by (auto simp: power_sets_append)
next
  show "power_sets p (trace (snd (ensure_powered w p s))) \<le> power_sets p (trace s) + 1"
    using ensure_powered_trace [of w p s] by (auto simp: power_sets_append)
next
  assume H: "(\<forall>h. refuses w h (SetProp p IFACE ''Powered'' PyTrue) = None) \<and>
       (\<forall>h. Invoke (SetProp p IFACE ''Powered'' PyTrue) None \<in> set h \<longrightarrow>
              truthy (prop_value w h p ''Powered''))"
  let ?s1 = "snd (ensure_powered w p s)"
  obtain new1 where new1: "trace ?s1 = trace s @ new1" "power_sets p new1 \<le> 1"
      "power_sets p new1 = 1 \<Longrightarrow> Invoke (SetProp p IFACE ''Powered'' PyTrue) None \<in> set new1"
    using ensure_powered_trace [of w p s] H by blast
  obtain new2 where new2: "trace (snd (ensure_powered w p ?s1)) = trace ?s1 @ new2"
      "power_sets p new2 \<le> 1"
      "truthy (prop_value w (trace ?s1) p ''Powered'') \<Longrightarrow> power_sets p new2 = 0"
    using ensure_powered_trace [of w p ?s1] by blast
  show "power_sets p (trace (snd (ensure_powered w p ?s1))) \<le> power_sets p (trace s) + 1"
  proof (cases "power_sets p new1 = 1")
    case True
    then have "Invoke (SetProp p IFACE ''Powered'' PyTrue) None \<in> set (trace ?s1)"
      using new1 by simp
    with H have "truthy (prop_value w (trace ?s1) p ''Powered'')" by blast
    then have "power_sets p new2 = 0" by (rule new2(3))
    with new1 new2 show ?thesis by (simp add: power_sets_append)
  next
    case False
    with new1(2) have "power_sets p new1 = 0" by simp
    with new1 new2 show ?thesis by (simp add: power_sets_append)
  qed
qed

lemma ensure_powered_unpowered:
  assumes "refuses w (trace s) (GetProp p IFACE ''Powered'') = None"
      and "\<not> truthy (prop_value w (trace s) p ''Powered'')"
  shows "ensure_powered w p s =
           (Inr PyNone,
            s\<lparr>trace := trace s @
               [Invoke (GetProp p IFACE ''Powered'') None,
                Log Info (PoweringOn (last_component p)),
                Invoke (SetProp p IFACE ''Powered'' PyTrue)
                  (refuses w (trace s @ [Invoke (GetProp p IFACE ''Powered'') None,
                                         Log Info (PoweringOn (last_component p))])
                     (SetProp p IFACE ''Powered'' PyTrue)),
                (case refuses w (trace s @ [Invoke (GetProp p IFACE ''Powered'') None,
                                            Log Info (PoweringOn (last_component p))])
                        (SetProp p IFACE ''Powered'' PyTrue) of
                   None \<Rightarrow> Log Info PoweredOn
                 | Some m \<Rightarrow> Log Error (FailedToPowerOn m))]\<rparr>)"
  using assms
  by (cases "refuses w (trace s @ [Invoke (GetProp p IFACE ''Powered'') None,
                                   Log Info (PoweringOn (last_component p))])
               (SetProp p IFACE ''Powered'' PyTrue)")
     (simp_all add: ensure_powered_def prop_get_def set_bool_prop_def invoke_def emit_def log_def)

text \<open>
  C8, as amended. \<^verbatim>\<open>ensure_powered\<close> reads \<^verbatim>\<open>Powered\<close> and logs that it is powering on. When
  the adapter already reports powered it issues no power-set request and logs that it is
  already powered. When the adapter reports not powered it issues exactly one power-set
  request, logs the success or the failure of that request, and returns \<^verbatim>\<open>None\<close> either
  way. Two calls in succession issue at most one request between them provided the request
  does not fail and the adapter reports powered once a request has succeeded (exactly one
  when the adapter reported not powered at first). A request that failed is issued again:
  when the first request fails and the adapter still reports not powered, two calls in
  succession issue two requests.
\<close>

theorem ensure_powered_power_sets:
  "(refuses w (trace s) (GetProp p IFACE ''Powered'') = None \<and>
    truthy (prop_value w (trace s) p ''Powered'') \<longrightarrow>
      ensure_powered w p s =
        (Inr PyNone,
         s\<lparr>trace := trace s @ [Invoke (GetProp p IFACE ''Powered'') None,
                                Log Info (PoweringOn (last_component p)),
                                Log Info AlreadyPowered]\<rparr>))
   \<and> (refuses w (trace s) (GetProp p IFACE ''Powered'') = None \<and>
      \<not> truthy (prop_value w (trace s) p ''Powered'') \<longrightarrow>
        (\<exists>r. ensure_powered w p s =
           (Inr PyNone,
            s\<lparr>trace := trace s @
               [Invoke (GetProp p IFACE ''Powered'') None,
                Log Info (PoweringOn (last_component p)),
                Invoke (SetProp p IFACE ''Powered'' PyTrue) r,
                (case r of None \<Rightarrow> Log Info PoweredOn
                         | Some m \<Rightarrow> Log Error (FailedToPowerOn m))]\<rparr>) \<and>
           r = refuses w (trace s @ [Invoke (GetProp p IFACE ''Powered'') None,
                                     Log Info (PoweringOn (last_component p))])
                 (SetProp p IFACE ''Powered'' PyTrue)) \<and>
        power_sets p (trace (snd (ensure_powered w p s))) = power_sets p (trace s) + 1)
   \<and> (truthy (prop_value w (trace s) p ''Powered'') \<longrightarrow>
        power_sets p (trace (snd (ensure_powered w p s))) = power_sets p (trace s))
   \<and> power_sets p (trace (snd (ensure_powered w p s))) \<le> power_sets p (trace s) + 1
   \<and> ((\<forall>h. refuses w h (SetProp p IFACE ''Powered'' PyTrue) = None) \<and>
       (\<forall>h. Invoke (SetProp p IFACE ''Powered'' PyTrue) None \<in> set h \<longrightarrow>
              truthy (prop_value w h p ''Powered'')) \<longrightarrow>
        power_sets p (trace (snd (ensure_powered w p (snd (ensure_powered w p s)))))
          \<le> power_sets p (trace s) + 1 \<and>
        (refuses w (trace s) (GetProp p IFACE ''Powered'') = None \<and>
         \<not> truthy (prop_value w (trace s) p ''Powered'') \<longrightarrow>
           power_sets p (trace (snd (ensure_powered w p (snd (ensure_powered w p s)))))
             = power_sets p (trace s) + 1))
   \<and> (\<forall>m. refuses w (trace s) (GetProp p IFACE ''Powered'') = None \<and>
           \<not> truthy (prop_value w (trace s) p ''Powered'') \<and>
           refuses w (trace s @ [Invoke (GetProp p IFACE ''Powered'') None,
                                 Log Info (PoweringOn (last_component p))])
             (SetProp p IFACE ''Powered'' PyTrue) = Some m \<and>
           refuses w (trace s @ [Invoke (GetProp p IFACE ''Powered'') None,
                                 Log Info (PoweringOn (last_component p)),
                                 Invoke (SetProp p IFACE ''Powered'' PyTrue) (Some m),
                                 Log Error (FailedToPowerOn m)])
             (GetProp p IFACE ''Powered'') = None \<and>
           \<not> truthy (prop_value w
                (trace s @ [Invoke (GetProp p IFACE ''Powered'') None,
                            Log Info (PoweringOn (last_component p)),
                            Invoke (SetProp p IFACE ''Powered'' PyTrue) (Some m),
                            Log Error (FailedToPowerOn m)]) p ''Powered'') \<longrightarrow>
         power_sets p (trace (snd (ensure_powered w p (snd (ensure_powered w p s)))))
           = power_sets p (trace s) + 2)"
proof (intro conjI impI allI)
  note old = ensure_powered_bounds [of w s p]
  let ?get = "Invoke (GetProp p IFACE ''Powered'') None"
  let ?on = "Log Info (PoweringOn (last_component p))"
  let ?set = "SetProp p IFACE ''Powered'' PyTrue"
  show "ensure_powered w p s = (Inr PyNone, s\<lparr>trace := trace s @ [?get, ?on, Log Info AlreadyPowered]\<rparr>)"
    if "refuses w (trace s) (GetProp p IFACE ''Powered'') = None \<and>
        truthy (prop_value w (trace s) p ''Powered'')"
    using that old by blast
  show "\<exists>r. ensure_powered w p s =
           (Inr PyNone,
            s\<lparr>trace := trace s @
               [?get, ?on, Invoke ?set r,
                (case r of None \<Rightarrow> Log Info PoweredOn
                         | Some m \<Rightarrow> Log Error (FailedToPowerOn m))]\<rparr>) \<and>
           r = refuses w (trace s @ [?get, ?on]) ?set"
    if "refuses w (trace s) (GetProp p IFACE ''Powered'') = None \<and>
        \<not> truthy (prop_value w (trace s) p ''Powered'')"
    using that ensure_powered_unpowered [of w s p] by blast
  show one: "power_sets p (trace (snd (ensure_powered w p s))) = power_sets p (trace s) + 1"
    if "refuses w (trace s) (GetProp p IFACE ''Powered'') = None \<and>
        \<not> truthy (prop_value w (trace s) p ''Powered'')"
    using that ensure_powered_unpowered [of w s p]
    by (simp add: power_sets_def split: option.splits)
  show "power_sets p (trace (snd (ensure_powered w p s))) = power_sets p (trace s)"
    if "truthy (prop_value w (trace s) p ''Powered'')"
    using that old by blast
  show "power_sets p (trace (snd (ensure_powered w p s))) \<le> power_sets p (trace s) + 1"
    using old by blast
  show le: "power_sets p (trace (snd (ensure_powered w p (snd (ensure_powered w p s)))))
          \<le> power_sets p (trace s) + 1"
    if "(\<forall>h. refuses w h ?set = None) \<and>
        (\<forall>h. Invoke ?set None \<in> set h \<longrightarrow> truthy (prop_value w h p ''Powered''))"
    using that old by blast
  show "power_sets p (trace (snd (ensure_powered w p (snd (ensure_powered w p s)))))
             = power_sets p (trace s) + 1"
    if H: "(\<forall>h. refuses w h ?set = None) \<and>
        (\<forall>h. Invoke ?set None \<in> set h \<longrightarrow> truthy (prop_value w h p ''Powered''))"
    and U: "refuses w (trace s) (GetProp p IFACE ''Powered'') = None \<and>
        \<not> truthy (prop_value w (trace s) p ''Powered'')"
  proof -
    have "power_sets p (trace (snd (ensure_powered w p s))) = power_sets p (trace s) + 1"
      using U by (rule one)
    moreover have "power_sets p (trace (snd (ensure_powered w p s)))
        \<le> power_sets p (trace (snd (ensure_powered w p (snd (ensure_powered w p s)))))"
      using ensure_powered_trace [of w p "snd (ensure_powered w p s)"]
      by (auto simp: power_sets_append)
    ultimately show ?thesis using le [OF H] by simp
  qed
  show "power_sets p (trace (snd (ensure_powered w p (snd (ensure_powered w p s)))))
           = power_sets p (trace s) + 2"
    if F: "refuses w (trace s) (GetProp p IFACE ''Powered'') = None \<and>
           \<not> truthy (prop_value w (trace s) p ''Powered'') \<and>
           refuses w (trace s @ [?get, ?on]) ?set = Some m \<and>
           refuses w (trace s @ [?get, ?on, Invoke ?set (Some m), Log Error (FailedToPowerOn m)])
             (GetProp p IFACE ''Powered'') = None \<and>
           \<not> truthy (prop_value w
                (trace s @ [?get, ?on, Invoke ?set (Some m), Log Error (FailedToPowerOn m)])
                p ''Powered'')"
    for m
  proof -
    let ?s1 = "s\<lparr>trace := trace s @ [?get, ?on, Invoke ?set (Some m), Log Error (FailedToPowerOn m)]\<rparr>"
    have first: "ensure_powered w p s = (Inr PyNone, ?s1)"
      using F ensure_powered_unpowered [of w s p] by simp
    have "refuses w (trace ?s1) (GetProp p IFACE ''Powered'') = None \<and>
        \<not> truthy (prop_value w (trace ?s1) p ''Powered'')"
      using F by simp
    then have "power_sets p (trace (snd (ensure_powered w p ?s1))) = power_sets p (trace ?s1) + 1"
      using ensure_powered_unpowered [of w ?s1 p]
      by (simp add: power_sets_def split: option.splits)
    moreover have "power_sets p (trace ?s1) = power_sets p (trace s) + 1"
      by (simp add: power_sets_def)
    ultimately show ?thesis using first by simp
  qed
qed

theorem ensure_powered_power_sets_witness:
  "(\<forall>h. refuses powers_on h (SetProp ''/hci0'' IFACE ''Powered'' PyTrue) = None)
   \<and> refuses powers_on (trace (fresh [])) (GetProp ''/hci0'' IFACE ''Powered'') = None
   \<and> \<not> truthy (prop_value powers_on (trace (fresh [])) ''/hci0'' ''Powered'')
   \<and> power_sets ''/hci0''
        (trace (snd (ensure_powered powers_on ''/hci0''
                  (snd (ensure_powered powers_on ''/hci0'' (fresh [])))))) = 1
   \<and> refuses blocked (trace (fresh [])) (GetProp ''/hci0'' IFACE ''Powered'') = None
   \<and> \<not> truthy (prop_value blocked (trace (fresh [])) ''/hci0'' ''Powered'')
   \<and> refuses blocked
        [Invoke (GetProp ''/hci0'' IFACE ''Powered'') None, Log Info (PoweringOn ''hci0'')]
        (SetProp ''/hci0'' IFACE ''Powered'' PyTrue) = Some ''Blocked''
   \<and> power_sets ''/hci0''
        (trace (snd (ensure_powered blocked ''/hci0''
                  (snd (ensure_powered blocked ''/hci0'' (fresh [])))))) = 2"
  using ensure_powered_power_sets [where w = powers_on and s = "fresh []" and p = "''/hci0''"]
        ensure_powered_power_sets [where w = blocked and s = "fresh []" and p = "''/hci0''"]
  by (simp add: powers_on_def blocked_def fresh_def power_sets_def last_component_def
        ensure_powered_def prop_get_def set_bool_prop_def invoke_def emit_def log_def const_defs)

text \<open>
  Against C8 as stated: on an adapter whose power-set request fails (and which stays
  off), two calls in succession issue two requests.
\<close>

theorem failed_power_set_is_repeated:
  "power_sets ''/hci0''
     (trace (snd (ensure_powered blocked ''/hci0'' (snd (ensure_powered blocked ''/hci0'' (fresh []))))))
     = 2"
  by (simp add: blocked_def fresh_def power_sets_def ensure_powered_def prop_get_def
        set_bool_prop_def invoke_def emit_def log_def const_defs)

section \<open>Starting a scan\<close>

lemma get_adapters:
  "get_objects_by_iface w ADAPTER_IFACE s = (adapters_at w (trace s), emit GetManagedObjects s)"
  by (simp add: get_objects_by_iface_def adapters_at_def)

lemma start_each_Cons:
  "start_each w (a # as) s =
     (let s1 = s\<lparr>trace := trace s @ [Invoke (StopDiscovery a) (refuses w (trace s) (StopDiscovery a))]\<rparr>
      in case refuses w (trace s1) (StartDiscovery a) of
           Some m \<Rightarrow> (Inl (DBusException m), s1\<lparr>trace := trace s1 @ [Invoke (StartDiscovery a) (Some m)]\<rparr>)
         | None \<Rightarrow> start_each w as (s1\<lparr>trace := trace s1 @ [Invoke (StartDiscovery a) None]\<rparr>))"
  by (simp add: invoke_def emit_def split: option.splits)

lemma start_each_trace:
  "\<exists>tr. snd (start_each w as s) = s\<lparr>trace := trace s @ tr\<rparr> \<and> list_all discovery_call tr \<and>
     (case fst (start_each w as s) of
        Inr u \<Rightarrow> \<forall>a \<in> set as. Invoke (StartDiscovery a) None \<in> set tr
      | Inl e \<Rightarrow> \<exists>a m tr'. a \<in> set as \<and> e = DBusException m \<and>
                   tr = tr' @ [Invoke (StartDiscovery a) (Some m)])"
proof (induction as arbitrary: s)
  case Nil
  have "snd (start_each w [] s) = s\<lparr>trace := trace s @ []\<rparr>" by simp
  then show ?case by (intro exI [of _ "[]"]) simp
next
  case (Cons a as)
  let ?stop = "Invoke (StopDiscovery a) (refuses w (trace s) (StopDiscovery a))"
  let ?s1 = "s\<lparr>trace := trace s @ [?stop]\<rparr>"
  show ?case
  proof (cases "refuses w (trace ?s1) (StartDiscovery a)")
    case (Some m)
    then have "start_each w (a # as) s =
        (Inl (DBusException m), s\<lparr>trace := trace s @ [?stop, Invoke (StartDiscovery a) (Some m)]\<rparr>)"
      by (simp add: start_each_Cons del: start_each.simps)
    then show ?thesis
      by (intro exI [of _ "[?stop, Invoke (StartDiscovery a) (Some m)]"])
         (auto intro: exI [of _ "[?stop]"])
  next
    case None
    let ?s2 = "s\<lparr>trace := trace s @ [?stop, Invoke (StartDiscovery a) None]\<rparr>"
    from None have step: "start_each w (a # as) s = start_each w as ?s2"
      by (simp add: start_each_Cons del: start_each.simps)
    from Cons.IH [of ?s2] obtain tr where
      tr: "snd (start_each w as ?s2) = ?s2\<lparr>trace := trace ?s2 @ tr\<rparr>" "list_all discovery_call tr"
        "case fst (start_each w as ?s2) of
           Inr u \<Rightarrow> \<forall>a \<in> set as. Invoke (StartDiscovery a) None \<in> set tr
         | Inl e \<Rightarrow> \<exists>a m tr'. a \<in> set as \<and> e = DBusException m \<and>
                   tr = tr' @ [Invoke (StartDiscovery a) (Some m)]"
      by blast
    show ?thesis
    proof (intro exI [of _ "[?stop, Invoke (StartDiscovery a) None] @ tr"] conjI)
      show "snd (start_each w (a # as) s) =
          s\<lparr>trace := trace s @ [?stop, Invoke (StartDiscovery a) None] @ tr\<rparr>"
        using step tr(1) by simp
      show "list_all discovery_call ([?stop, Invoke (StartDiscovery a) None] @ tr)"
        using tr(2) by simp
      show "case fst (start_each w (a # as) s) of
         Inr u \<Rightarrow> \<forall>a' \<in> set (a # as). Invoke (StartDiscovery a') None
                     \<in> set ([?stop, Invoke (StartDiscovery a) None] @ tr)
       | Inl e \<Rightarrow> \<exists>a' m tr'. a' \<in> set (a # as) \<and> e = DBusException m \<and>
                   [?stop, Invoke (StartDiscovery a) None] @ tr
                     = tr' @ [Invoke (StartDiscovery a') (Some m)]"
      proof (cases "fst (start_each w as ?s2)")
        case (Inr u)
        with tr(3) step show ?thesis by auto
      next
        case (Inl e)
        with tr(3) obtain a' m tr' where "a' \<in> set as" "e = DBusException m"
            "tr = tr' @ [Invoke (StartDiscovery a') (Some m)]" by auto
        with Inl step show ?thesis
          by (auto intro!: exI [of _ a'] exI [of _ "[?stop, Invoke (StartDiscovery a) None] @ tr'"])
      qed
    qed
  qed
qed

lemma start_each_succeeds:
  "\<forall>h a. refuses w h (StartDiscovery a) = None \<Longrightarrow> \<exists>u. fst (start_each w as s) = Inr u"
proof (induction as arbitrary: s)
  case Nil
  show ?case by simp
next
  case (Cons a as)
  then show ?case
    by (simp add: start_each_Cons del: start_each.simps)
qed

lemma scan_unfold:
  "scan w t s =
     (case start_each w
             (adapters_at w (trace s @ [AddSignalReceiver InterfacesAddedReceiver,
                                        AddSignalReceiver PropertiesChangedReceiver]))
             (s\<lparr>trace := trace s @ [AddSignalReceiver InterfacesAddedReceiver,
                                     AddSignalReceiver PropertiesChangedReceiver, GetManagedObjects],
                receivers := receivers s @ [InterfacesAddedReceiver, PropertiesChangedReceiver]\<rparr>) of
        (Inl e, s2) \<Rightarrow> Some (Inl e, s2)
      | (Inr u, s2) \<Rightarrow>
          (case run w (timeout_add_seconds t s2) of
             None \<Rightarrow> None
           | Some s3 \<Rightarrow> Some (Inr PyNone, s3)))"
proof -
  have "get_objects_by_iface w ADAPTER_IFACE
          (add_signal_receiver PropertiesChangedReceiver
            (add_signal_receiver InterfacesAddedReceiver s)) =
        (adapters_at w (trace s @ [AddSignalReceiver InterfacesAddedReceiver,
                                   AddSignalReceiver PropertiesChangedReceiver]),
         s\<lparr>trace := trace s @ [AddSignalReceiver InterfacesAddedReceiver,
                                AddSignalReceiver PropertiesChangedReceiver, GetManagedObjects],
           receivers := receivers s @ [InterfacesAddedReceiver, PropertiesChangedReceiver]\<rparr>)"
    by (simp add: get_adapters add_signal_receiver_def emit_def)
  then show ?thesis
    unfolding scan_def by simp
qed

text \<open>What \<^verbatim>\<open>scan\<close> has done when it raises, and that it goes on when no start is refused.\<close>

lemma scan_start_outcomes:
  "((\<forall>h a. refuses w h (StartDiscovery a) = None) \<longrightarrow>
      (\<exists>s2 tr.
         scan w t s = (case run w (timeout_add_seconds t s2) of
                         None \<Rightarrow> None
                       | Some s3 \<Rightarrow> Some (Inr PyNone, s3)) \<and>
         trace s2 = trace s @ [AddSignalReceiver InterfacesAddedReceiver,
                               AddSignalReceiver PropertiesChangedReceiver, GetManagedObjects] @ tr \<and>
         list_all discovery_call tr \<and>
         (\<forall>a \<in> set (adapters_at w (trace s @ [AddSignalReceiver InterfacesAddedReceiver,
                                                AddSignalReceiver PropertiesChangedReceiver])).
            Invoke (StartDiscovery a) None \<in> set tr)))
   \<and> (\<forall>e s'. scan w t s = Some (Inl e, s') \<longrightarrow>
        (\<exists>a m tr.
           e = DBusException m \<and>
           a \<in> set (adapters_at w (trace s @ [AddSignalReceiver InterfacesAddedReceiver,
                                               AddSignalReceiver PropertiesChangedReceiver])) \<and>
           trace s' = trace s @ [AddSignalReceiver InterfacesAddedReceiver,
                                 AddSignalReceiver PropertiesChangedReceiver, GetManagedObjects] @ tr @
                        [Invoke (StartDiscovery a) (Some m)] \<and>
           list_all discovery_call tr \<and>
           timers s' = timers s \<and> running s' = running s \<and> queue s' = queue s))"
proof (intro conjI impI allI)
  let ?h = "trace s @ [AddSignalReceiver InterfacesAddedReceiver,
                       AddSignalReceiver PropertiesChangedReceiver]"
  let ?s1 = "s\<lparr>trace := trace s @ [AddSignalReceiver InterfacesAddedReceiver,
                                     AddSignalReceiver PropertiesChangedReceiver, GetManagedObjects],
                receivers := receivers s @ [InterfacesAddedReceiver, PropertiesChangedReceiver]\<rparr>"
  obtain tr where
    tr: "snd (start_each w (adapters_at w ?h) ?s1) = ?s1\<lparr>trace := trace ?s1 @ tr\<rparr>"
        "list_all discovery_call tr"
        "case fst (start_each w (adapters_at w ?h) ?s1) of
           Inr u \<Rightarrow> \<forall>a \<in> set (adapters_at w ?h). Invoke (StartDiscovery a) None \<in> set tr
         | Inl e \<Rightarrow> \<exists>a m tr'. a \<in> set (adapters_at w ?h) \<and> e = DBusException m \<and>
                   tr = tr' @ [Invoke (StartDiscovery a) (Some m)]"
    using start_each_trace [of w "adapters_at w ?h" ?s1] by blast
  {
    assume "\<forall>h a. refuses w h (StartDiscovery a) = None"
    then obtain u where u: "fst (start_each w (adapters_at w ?h) ?s1) = Inr u"
      using start_each_succeeds by blast
    let ?s2 = "?s1\<lparr>trace := trace ?s1 @ tr\<rparr>"
    have "start_each w (adapters_at w ?h) ?s1 = (Inr u, ?s2)"
      using u tr(1) by (metis prod.collapse)
    then have "scan w t s = (case run w (timeout_add_seconds t ?s2) of
                         None \<Rightarrow> None
                       | Some s3 \<Rightarrow> Some (Inr PyNone, s3))"
      by (simp add: scan_unfold)
    moreover have "trace ?s2 = trace s @ [AddSignalReceiver InterfacesAddedReceiver,
                               AddSignalReceiver PropertiesChangedReceiver, GetManagedObjects] @ tr"
      by simp
    moreover have "\<forall>a \<in> set (adapters_at w ?h). Invoke (StartDiscovery a) None \<in> set tr"
      using tr(3) u by simp
    ultimately show "\<exists>s2 tr.
         scan w t s = (case run w (timeout_add_seconds t s2) of
                         None \<Rightarrow> None
                       | Some s3 \<Rightarrow> Some (Inr PyNone, s3)) \<and>
         trace s2 = trace s @ [AddSignalReceiver InterfacesAddedReceiver,
                               AddSignalReceiver PropertiesChangedReceiver, GetManagedObjects] @ tr \<and>
         list_all discovery_call tr \<and>
         (\<forall>a \<in> set (adapters_at w ?h). Invoke (StartDiscovery a) None \<in> set tr)"
      using tr(2) by blast
  }
  {
    fix e s'
    assume raised: "scan w t s = Some (Inl e, s')"
    have "start_each w (adapters_at w ?h) ?s1 = (Inl e, s')"
    proof (cases "start_each w (adapters_at w ?h) ?s1")
      case (Pair r s2)
      with raised show ?thesis
        by (cases r) (auto simp: scan_unfold split: option.splits)
    qed
    then have fst: "fst (start_each w (adapters_at w ?h) ?s1) = Inl e"
      and snd: "snd (start_each w (adapters_at w ?h) ?s1) = s'" by simp_all
    from tr(3) fst obtain a m tr' where
      a: "a \<in> set (adapters_at w ?h)" "e = DBusException m"
         "tr = tr' @ [Invoke (StartDiscovery a) (Some m)]" by auto
    have "trace s' = trace s @ [AddSignalReceiver InterfacesAddedReceiver,
                                 AddSignalReceiver PropertiesChangedReceiver, GetManagedObjects] @ tr' @
                        [Invoke (StartDiscovery a) (Some m)]"
      using tr(1) snd a(3) by auto
    moreover have "list_all discovery_call tr'" using tr(2) a(3) by simp
    moreover have "timers s' = timers s \<and> running s' = running s \<and> queue s' = queue s"
      using tr(1) snd by auto
    ultimately show "\<exists>a m tr.
           e = DBusException m \<and>
           a \<in> set (adapters_at w ?h) \<and>
           trace s' = trace s @ [AddSignalReceiver InterfacesAddedReceiver,
                                 AddSignalReceiver PropertiesChangedReceiver, GetManagedObjects] @ tr @
                        [Invoke (StartDiscovery a) (Some m)] \<and>
           list_all discovery_call tr \<and>
           timers s' = timers s \<and> running s' = running s \<and> queue s' = queue s"
      using a(1,2) by blast
  }
qed

lemmas scan_defs = scan_def scan_timeout_def run_def add_signal_receiver_def
  timeout_add_seconds_def resume_def adapters_at_def

text \<open>
  Against C6 as stated: on an adapter whose \<^verbatim>\<open>StartDiscovery()\<close> fails, \<^verbatim>\<open>scan\<close>
  raises; the session is aborted before the timer is armed, and the loop never runs.
\<close>

theorem unready_adapter_aborts_scan:
  "scan not_ready 5 (fresh [TimeoutElapsed]) =
     Some (Inl (DBusException ''NotReady''),
           \<lparr>trace = [AddSignalReceiver InterfacesAddedReceiver,
                      AddSignalReceiver PropertiesChangedReceiver, GetManagedObjects,
                      Invoke (StopDiscovery ''/hci0'') None,
                      Invoke (StartDiscovery ''/hci0'') (Some ''NotReady'')],
              receivers = [InterfacesAddedReceiver, PropertiesChangedReceiver],
              timers = [], pending = [], running = False, queue = [TimeoutElapsed]\<rparr>)"
  by (simp add: world_defs const_defs op_defs scan_defs)

section \<open>Scan sessions\<close>

lemma quiet_while_scanning: "pending s = [] \<Longrightarrow> e \<noteq> TimeoutElapsed \<Longrightarrow> quiet s e"
  by (cases e) auto

lemma fold_inert: "\<forall>x \<in> set xs. f x = id \<Longrightarrow> fold f xs b = b"
  by (induction xs arbitrary: b) simp_all

lemma in_loop_snoc:
  "in_loop (h @ [x]) = (if x = LoopRun then True else if x = LoopQuit then False else in_loop h)"
  by (simp add: in_loop_def)

lemma in_loop_append:
  "\<forall>x \<in> set tr. x \<noteq> LoopRun \<and> x \<noteq> LoopQuit \<Longrightarrow> in_loop (h @ tr) = in_loop h"
  unfolding in_loop_def fold_append comp_def
  by (rule fold_inert) auto

lemma discovering_snoc:
  "discovering (h @ [x]) a =
     (if x = Invoke (StartDiscovery a) None then True
      else if x = Invoke (StopDiscovery a) None then False else discovering h a)"
  by (simp add: discovering_def)

lemma discovering_append:
  "\<forall>x \<in> set tr. adapter_of x \<noteq> Some a \<Longrightarrow> discovering (h @ tr) a = discovering h a"
proof (induction tr rule: rev_induct)
  case Nil
  show ?case by simp
next
  case (snoc x tr)
  from snoc.prems have "x \<noteq> Invoke (StartDiscovery a) None" "x \<noteq> Invoke (StopDiscovery a) None"
    by auto
  moreover have "discovering (h @ tr) a = discovering h a" using snoc by simp
  ultimately show ?case
    using discovering_snoc [of "h @ tr" x a] by simp
qed

lemma signal_log_inert:
  "signal_log x \<Longrightarrow> x \<noteq> LoopRun \<and> x \<noteq> LoopQuit \<and> adapter_of x = None"
  by (cases x rule: signal_log.cases) simp_all

lemma adapter_of_discovery_call: "adapter_of x = Some a \<Longrightarrow> discovery_call x"
  by (cases x rule: adapter_of.cases) simp_all

lemma start_each_started:
  assumes "\<forall>h a. start_after_stop w h a = None"
  shows "\<exists>tr. start_each w as s = (Inr (), s\<lparr>trace := trace s @ tr\<rparr>) \<and>
           (\<forall>x \<in> set tr. \<exists>a \<in> set as. adapter_of x = Some a) \<and>
           (\<forall>a \<in> set as. Invoke (StartDiscovery a) None \<in> set tr \<and> discovering (trace s @ tr) a)"
proof (induction as arbitrary: s)
  case Nil
  have "start_each w [] s = (Inr (), s\<lparr>trace := trace s @ []\<rparr>)" by simp
  then show ?case by (intro exI [of _ "[]"]) simp
next
  case (Cons a as)
  let ?stop = "Invoke (StopDiscovery a) (refuses w (trace s) (StopDiscovery a))"
  let ?tr1 = "[?stop, Invoke (StartDiscovery a) None]"
  let ?s2 = "s\<lparr>trace := trace s @ ?tr1\<rparr>"
  have ok: "refuses w (trace s @ [?stop]) (StartDiscovery a) = None"
    using assms by (simp add: start_after_stop_def)
  then have step: "start_each w (a # as) s = start_each w as ?s2"
    by (simp add: start_each_Cons del: start_each.simps)
  from Cons.IH [of ?s2] obtain tr where
    tr: "start_each w as ?s2 = (Inr (), ?s2\<lparr>trace := trace ?s2 @ tr\<rparr>)"
      "\<forall>x \<in> set tr. \<exists>b \<in> set as. adapter_of x = Some b"
      "\<forall>b \<in> set as. Invoke (StartDiscovery b) None \<in> set tr \<and> discovering (trace ?s2 @ tr) b"
    by blast
  have a: "discovering (trace s @ ?tr1 @ tr) a"
  proof (cases "a \<in> set as")
    case True
    with tr(3) show ?thesis by simp
  next
    case False
    with tr(2) have "\<forall>x \<in> set tr. adapter_of x \<noteq> Some a" by auto
    then have "discovering ((trace s @ ?tr1) @ tr) a = discovering (trace s @ ?tr1) a"
      by (rule discovering_append)
    moreover have "discovering ((trace s @ [?stop]) @ [Invoke (StartDiscovery a) None]) a"
      by (simp only: discovering_snoc) simp
    ultimately show ?thesis by simp
  qed
  show ?case
  proof (intro exI [of _ "?tr1 @ tr"] conjI ballI)
    show "start_each w (a # as) s = (Inr (), s\<lparr>trace := trace s @ ?tr1 @ tr\<rparr>)"
      using step tr(1) by simp
  next
    fix x assume "x \<in> set (?tr1 @ tr)"
    with tr(2) show "\<exists>b \<in> set (a # as). adapter_of x = Some b" by auto
  next
    fix b assume "b \<in> set (a # as)"
    with tr(3) show "Invoke (StartDiscovery b) None \<in> set (?tr1 @ tr)" by auto
  next
    fix b assume "b \<in> set (a # as)"
    with tr(3) a show "discovering (trace s @ ?tr1 @ tr) b" by auto
  qed
qed

lemma stop_each_stopped:
  assumes "\<forall>h a. in_loop h \<and> discovering h a \<longrightarrow> refuses w h (StopDiscovery a) = None"
  shows "in_loop (trace s) \<Longrightarrow> distinct as \<Longrightarrow> \<forall>a \<in> set as. discovering (trace s) a \<Longrightarrow>
         stop_each w as s =
           (Inr (), s\<lparr>trace := trace s @ map (\<lambda>a. Invoke (StopDiscovery a) None) as\<rparr>)"
proof (induction as arbitrary: s)
  case Nil
  show ?case by simp
next
  case (Cons a as)
  let ?s1 = "s\<lparr>trace := trace s @ [Invoke (StopDiscovery a) None]\<rparr>"
  from Cons.prems assms have ok: "refuses w (trace s) (StopDiscovery a) = None" by simp
  have "in_loop (trace ?s1)" using Cons.prems(1) by (simp add: in_loop_snoc)
  moreover have "distinct as" using Cons.prems(2) by simp
  moreover have "\<forall>b \<in> set as. discovering (trace ?s1) b"
    using Cons.prems(2,3) by (auto simp: discovering_snoc)
  ultimately have "stop_each w as ?s1 =
      (Inr (), ?s1\<lparr>trace := trace ?s1 @ map (\<lambda>a. Invoke (StopDiscovery a) None) as\<rparr>)"
    by (rule Cons.IH)
  with ok show ?case by (simp add: invoke_def emit_def)
qed

lemma start_each_refused:
  assumes "\<forall>h. \<forall>b \<in> set pre. start_after_stop w h b = None"
      and "\<forall>h. start_after_stop w h a \<noteq> None"
  shows "\<exists>m tr. start_each w (pre @ a # post) s =
                  (Inl (DBusException m),
                   s\<lparr>trace := trace s @ tr @ [Invoke (StartDiscovery a) (Some m)]\<rparr>) \<and>
                (\<forall>x \<in> set tr. \<exists>b \<in> set (pre @ [a]). adapter_of x = Some b)"
  using assms(1)
proof (induction pre arbitrary: s)
  case Nil
  let ?stop = "Invoke (StopDiscovery a) (refuses w (trace s) (StopDiscovery a))"
  from assms(2) obtain m where m: "refuses w (trace s @ [?stop]) (StartDiscovery a) = Some m"
    by (auto simp: start_after_stop_def)
  then have "start_each w ([] @ a # post) s =
      (Inl (DBusException m), s\<lparr>trace := trace s @ [?stop] @ [Invoke (StartDiscovery a) (Some m)]\<rparr>)"
    by (simp add: start_each_Cons del: start_each.simps)
  then show ?case
    by (intro exI [of _ m] exI [of _ "[?stop]"]) simp
next
  case (Cons b pre)
  let ?stop = "Invoke (StopDiscovery b) (refuses w (trace s) (StopDiscovery b))"
  let ?tr1 = "[?stop, Invoke (StartDiscovery b) None]"
  let ?s2 = "s\<lparr>trace := trace s @ ?tr1\<rparr>"
  from Cons.prems have ok: "refuses w (trace s @ [?stop]) (StartDiscovery b) = None"
    by (simp add: start_after_stop_def)
  then have step: "start_each w ((b # pre) @ a # post) s = start_each w (pre @ a # post) ?s2"
    by (simp add: start_each_Cons del: start_each.simps)
  from Cons.prems have "\<forall>h. \<forall>b \<in> set pre. start_after_stop w h b = None" by simp
  from Cons.IH [OF this, of ?s2] obtain m tr where
    tr: "start_each w (pre @ a # post) ?s2 =
           (Inl (DBusException m),
            ?s2\<lparr>trace := trace ?s2 @ tr @ [Invoke (StartDiscovery a) (Some m)]\<rparr>)"
        "\<forall>x \<in> set tr. \<exists>c \<in> set (pre @ [a]). adapter_of x = Some c"
    by blast
  show ?case
  proof (intro exI [of _ m] exI [of _ "?tr1 @ tr"] conjI ballI)
    show "start_each w ((b # pre) @ a # post) s =
        (Inl (DBusException m),
         s\<lparr>trace := trace s @ (?tr1 @ tr) @ [Invoke (StartDiscovery a) (Some m)]\<rparr>)"
      using step tr(1) by simp
  next
    fix x assume "x \<in> set (?tr1 @ tr)"
    with tr(2) show "\<exists>c \<in> set ((b # pre) @ [a]). adapter_of x = Some c" by auto
  qed
qed

lemma start_each_append:
  "start_each w (xs @ ys) s =
     (case start_each w xs s of
        (Inl e, s') \<Rightarrow> (Inl e, s')
      | (Inr u, s') \<Rightarrow> start_each w ys s')"
  by (induction xs arbitrary: s) (simp_all split: prod.splits sum.splits)

lemma scan_first_refused:
  assumes "adapters_at w (trace s @ [AddSignalReceiver InterfacesAddedReceiver,
                                     AddSignalReceiver PropertiesChangedReceiver]) = pre @ a # post"
      and "start_each w pre
             (s\<lparr>trace := trace s @ [AddSignalReceiver InterfacesAddedReceiver,
                                     AddSignalReceiver PropertiesChangedReceiver, GetManagedObjects],
                receivers := receivers s @ [InterfacesAddedReceiver, PropertiesChangedReceiver]\<rparr>) =
           (Inr (), s1)"
      and "start_after_stop w (trace s1) a = Some m"
  shows "scan w t s =
           Some (Inl (DBusException m),
                 s1\<lparr>trace := trace s1 @
                    [Invoke (StopDiscovery a) (refuses w (trace s1) (StopDiscovery a)),
                     Invoke (StartDiscovery a) (Some m)]\<rparr>)"
  using assms
  by (simp add: scan_unfold start_each_append start_each_Cons start_after_stop_def
        del: start_each.simps)

text \<open>
  C6, as amended. A \<^verbatim>\<open>StopDiscovery()\<close> that fails before the start, on some or all
  adapters, is swallowed: provided no \<^verbatim>\<open>StartDiscovery()\<close> fails, \<^verbatim>\<open>scan\<close> starts
  discovery on every adapter it enumerated, arms the timer and enters the loop. A
  \<^verbatim>\<open>StartDiscovery()\<close> that fails is not tolerated: when the adapters before \<open>a\<close> start
  and the start of \<open>a\<close> fails, \<^verbatim>\<open>scan\<close> raises that \<^verbatim>\<open>DBusException\<close> at once, having
  made discovery calls on \<open>a\<close> and the adapters before it only: the adapters after \<open>a\<close>
  are not touched, no timer is armed and the loop is not entered. And whenever \<^verbatim>\<open>scan\<close>
  raises, it is in this way. Exactly: once the loop over the adapters before \<open>a\<close> has
  completed, leaving the manager in state \<open>s1\<close>, and the \<^verbatim>\<open>StartDiscovery()\<close> of \<open>a\<close>
  after its stop attempt then fails with message \<open>m\<close>, \<^verbatim>\<open>scan\<close> raises
  \<^verbatim>\<open>DBusException(m)\<close> having added to \<open>s1\<close> that stop attempt and the failed start only.
\<close>

theorem start_failure_aborts_scan:
  "((\<forall>h a. start_after_stop w h a = None) \<longrightarrow>
      (\<exists>s2 tr.
         scan w t s = (case run w (timeout_add_seconds t s2) of
                         None \<Rightarrow> None
                       | Some s3 \<Rightarrow> Some (Inr PyNone, s3)) \<and>
         trace s2 = trace s @ [AddSignalReceiver InterfacesAddedReceiver,
                               AddSignalReceiver PropertiesChangedReceiver, GetManagedObjects] @ tr \<and>
         list_all discovery_call tr \<and>
         (\<forall>a \<in> set (adapters_at w (trace s @ [AddSignalReceiver InterfacesAddedReceiver,
                                                AddSignalReceiver PropertiesChangedReceiver])).
            Invoke (StartDiscovery a) None \<in> set tr)))
   \<and> (\<forall>pre a post.
        adapters_at w (trace s @ [AddSignalReceiver InterfacesAddedReceiver,
                                  AddSignalReceiver PropertiesChangedReceiver]) = pre @ a # post \<and>
        (\<forall>h. \<forall>b \<in> set pre. start_after_stop w h b = None) \<and>
        (\<forall>h. start_after_stop w h a \<noteq> None) \<longrightarrow>
        (\<exists>m tr s'.
           scan w t s = Some (Inl (DBusException m), s') \<and>
           trace s' = trace s @ [AddSignalReceiver InterfacesAddedReceiver,
                                 AddSignalReceiver PropertiesChangedReceiver, GetManagedObjects] @ tr @
                        [Invoke (StartDiscovery a) (Some m)] \<and>
           (\<forall>x \<in> set tr. \<exists>b \<in> set (pre @ [a]). adapter_of x = Some b) \<and>
           timers s' = timers s \<and> running s' = running s \<and> queue s' = queue s))
   \<and> (\<forall>e s'. scan w t s = Some (Inl e, s') \<longrightarrow>
        (\<exists>a m tr.
           e = DBusException m \<and>
           a \<in> set (adapters_at w (trace s @ [AddSignalReceiver InterfacesAddedReceiver,
                                               AddSignalReceiver PropertiesChangedReceiver])) \<and>
           trace s' = trace s @ [AddSignalReceiver InterfacesAddedReceiver,
                                 AddSignalReceiver PropertiesChangedReceiver, GetManagedObjects] @ tr @
                        [Invoke (StartDiscovery a) (Some m)] \<and>
           list_all discovery_call tr \<and>
           timers s' = timers s \<and> running s' = running s \<and> queue s' = queue s))
   \<and> (\<forall>pre a post s1 m.
        adapters_at w (trace s @ [AddSignalReceiver InterfacesAddedReceiver,
                                  AddSignalReceiver PropertiesChangedReceiver]) = pre @ a # post \<and>
        start_each w pre
          (s\<lparr>trace := trace s @ [AddSignalReceiver InterfacesAddedReceiver,
                                  AddSignalReceiver PropertiesChangedReceiver, GetManagedObjects],
             receivers := receivers s @ [InterfacesAddedReceiver, PropertiesChangedReceiver]\<rparr>) =
          (Inr (), s1) \<and>
        start_after_stop w (trace s1) a = Some m \<longrightarrow>
        scan w t s =
          Some (Inl (DBusException m),
                s1\<lparr>trace := trace s1 @
                   [Invoke (StopDiscovery a) (refuses w (trace s1) (StopDiscovery a)),
                    Invoke (StartDiscovery a) (Some m)]\<rparr>))"
proof (intro conjI impI allI)
  let ?h = "trace s @ [AddSignalReceiver InterfacesAddedReceiver,
                       AddSignalReceiver PropertiesChangedReceiver]"
  let ?s1 = "s\<lparr>trace := trace s @ [AddSignalReceiver InterfacesAddedReceiver,
                                     AddSignalReceiver PropertiesChangedReceiver, GetManagedObjects],
                receivers := receivers s @ [InterfacesAddedReceiver, PropertiesChangedReceiver]\<rparr>"
  {
    assume "\<forall>h a. start_after_stop w h a = None"
    from start_each_started [OF this, of "adapters_at w ?h" ?s1] obtain tr where
      tr: "start_each w (adapters_at w ?h) ?s1 = (Inr (), ?s1\<lparr>trace := trace ?s1 @ tr\<rparr>)"
          "\<forall>x \<in> set tr. \<exists>a \<in> set (adapters_at w ?h). adapter_of x = Some a"
          "\<forall>a \<in> set (adapters_at w ?h). Invoke (StartDiscovery a) None \<in> set tr"
      by blast
    let ?s2 = "?s1\<lparr>trace := trace ?s1 @ tr\<rparr>"
    have "scan w t s = (case run w (timeout_add_seconds t ?s2) of
                         None \<Rightarrow> None
                       | Some s3 \<Rightarrow> Some (Inr PyNone, s3))"
      using tr(1) by (simp add: scan_unfold)
    moreover have "trace ?s2 = trace s @ [AddSignalReceiver InterfacesAddedReceiver,
                               AddSignalReceiver PropertiesChangedReceiver, GetManagedObjects] @ tr"
      by simp
    moreover have "list_all discovery_call tr"
      using tr(2) by (auto simp: list_all_iff dest: adapter_of_discovery_call)
    ultimately show "\<exists>s2 tr.
         scan w t s = (case run w (timeout_add_seconds t s2) of
                         None \<Rightarrow> None
                       | Some s3 \<Rightarrow> Some (Inr PyNone, s3)) \<and>
         trace s2 = trace s @ [AddSignalReceiver InterfacesAddedReceiver,
                               AddSignalReceiver PropertiesChangedReceiver, GetManagedObjects] @ tr \<and>
         list_all discovery_call tr \<and>
         (\<forall>a \<in> set (adapters_at w ?h). Invoke (StartDiscovery a) None \<in> set tr)"
      using tr(3) by blast
  }
  {
    fix pre a post
    assume H: "adapters_at w ?h = pre @ a # post \<and>
        (\<forall>h. \<forall>b \<in> set pre. start_after_stop w h b = None) \<and>
        (\<forall>h. start_after_stop w h a \<noteq> None)"
    then have "\<forall>h. \<forall>b \<in> set pre. start_after_stop w h b = None"
        "\<forall>h. start_after_stop w h a \<noteq> None" by blast+
    from start_each_refused [OF this, of post ?s1] obtain m tr where
      tr: "start_each w (pre @ a # post) ?s1 =
             (Inl (DBusException m),
              ?s1\<lparr>trace := trace ?s1 @ tr @ [Invoke (StartDiscovery a) (Some m)]\<rparr>)"
          "\<forall>x \<in> set tr. \<exists>b \<in> set (pre @ [a]). adapter_of x = Some b"
      by blast
    let ?s' = "?s1\<lparr>trace := trace ?s1 @ tr @ [Invoke (StartDiscovery a) (Some m)]\<rparr>"
    have "scan w t s = Some (Inl (DBusException m), ?s')"
      using tr(1) H by (simp add: scan_unfold)
    moreover have "trace ?s' = trace s @ [AddSignalReceiver InterfacesAddedReceiver,
                                 AddSignalReceiver PropertiesChangedReceiver, GetManagedObjects] @ tr @
                        [Invoke (StartDiscovery a) (Some m)]"
        "timers ?s' = timers s" "running ?s' = running s" "queue ?s' = queue s"
      by simp_all
    ultimately show "\<exists>m tr s'.
           scan w t s = Some (Inl (DBusException m), s') \<and>
           trace s' = trace s @ [AddSignalReceiver InterfacesAddedReceiver,
                                 AddSignalReceiver PropertiesChangedReceiver, GetManagedObjects] @ tr @
                        [Invoke (StartDiscovery a) (Some m)] \<and>
           (\<forall>x \<in> set tr. \<exists>b \<in> set (pre @ [a]). adapter_of x = Some b) \<and>
           timers s' = timers s \<and> running s' = running s \<and> queue s' = queue s"
      using tr(2) by blast
  }
  {
    fix e s'
    assume "scan w t s = Some (Inl e, s')"
    with scan_start_outcomes [of w t s]
    show "\<exists>a m tr.
           e = DBusException m \<and>
           a \<in> set (adapters_at w ?h) \<and>
           trace s' = trace s @ [AddSignalReceiver InterfacesAddedReceiver,
                                 AddSignalReceiver PropertiesChangedReceiver, GetManagedObjects] @ tr @
                        [Invoke (StartDiscovery a) (Some m)] \<and>
           list_all discovery_call tr \<and>
           timers s' = timers s \<and> running s' = running s \<and> queue s' = queue s"
      by blast
  }
  {
    fix pre a post s1 m
    assume "adapters_at w ?h = pre @ a # post \<and>
        start_each w pre ?s1 = (Inr (), s1) \<and>
        start_after_stop w (trace s1) a = Some m"
    then show "scan w t s =
          Some (Inl (DBusException m),
                s1\<lparr>trace := trace s1 @
                   [Invoke (StopDiscovery a) (refuses w (trace s1) (StopDiscovery a)),
                    Invoke (StartDiscovery a) (Some m)]\<rparr>)"
      using scan_first_refused [of w s pre a post s1 m t] by blast
  }
qed

theorem start_failure_aborts_scan_witness:
  "(\<forall>h a. start_after_stop nothing_to_stop h a = None)
   \<and> refuses nothing_to_stop
        [AddSignalReceiver InterfacesAddedReceiver, AddSignalReceiver PropertiesChangedReceiver,
         GetManagedObjects]
        (StopDiscovery ''/hci0'') = Some ''No discovery started''
   \<and> (\<exists>s2 tr.
         scan nothing_to_stop 5 (fresh [TimeoutElapsed]) =
           (case run nothing_to_stop (timeout_add_seconds 5 s2) of
              None \<Rightarrow> None
            | Some s3 \<Rightarrow> Some (Inr PyNone, s3)) \<and>
         trace s2 = [AddSignalReceiver InterfacesAddedReceiver,
                     AddSignalReceiver PropertiesChangedReceiver, GetManagedObjects] @ tr \<and>
         list_all discovery_call tr \<and>
         Invoke (StartDiscovery ''/hci0'') None \<in> set tr)
   \<and> adapters_at not_ready
        [AddSignalReceiver InterfacesAddedReceiver, AddSignalReceiver PropertiesChangedReceiver]
       = [] @ ''/hci0'' # [''/hci1'']
   \<and> (\<forall>h. start_after_stop not_ready h ''/hci0'' \<noteq> None)
   \<and> (\<exists>m tr s'.
         scan not_ready 5 (fresh [TimeoutElapsed]) = Some (Inl (DBusException m), s') \<and>
         trace s' = [AddSignalReceiver InterfacesAddedReceiver,
                     AddSignalReceiver PropertiesChangedReceiver, GetManagedObjects] @ tr @
                    [Invoke (StartDiscovery ''/hci0'') (Some m)] \<and>
         list_all (\<lambda>x. adapter_of x = Some ''/hci0'') tr \<and>
         timers s' = [] \<and> \<not> running s' \<and> queue s' = [TimeoutElapsed])
   \<and> start_after_stop not_ready
        [AddSignalReceiver InterfacesAddedReceiver, AddSignalReceiver PropertiesChangedReceiver,
         GetManagedObjects] ''/hci0'' = Some ''NotReady''
   \<and> scan not_ready 5 (fresh [TimeoutElapsed]) =
       Some (Inl (DBusException ''NotReady''),
             \<lparr>trace = [AddSignalReceiver InterfacesAddedReceiver,
                        AddSignalReceiver PropertiesChangedReceiver, GetManagedObjects,
                        Invoke (StopDiscovery ''/hci0'') None,
                        Invoke (StartDiscovery ''/hci0'') (Some ''NotReady'')],
                receivers = [InterfacesAddedReceiver, PropertiesChangedReceiver],
                timers = [], pending = [], running = False, queue = [TimeoutElapsed]\<rparr>)"
proof (intro conjI)
  show nr: "\<forall>h a. start_after_stop nothing_to_stop h a = None"
    by (simp add: nothing_to_stop_def start_after_stop_def)
  show "refuses nothing_to_stop
        [AddSignalReceiver InterfacesAddedReceiver, AddSignalReceiver PropertiesChangedReceiver,
         GetManagedObjects]
        (StopDiscovery ''/hci0'') = Some ''No discovery started''"
    by (simp add: nothing_to_stop_def)
  have a1: "adapters_at nothing_to_stop (trace (fresh [TimeoutElapsed]) @
          [AddSignalReceiver InterfacesAddedReceiver, AddSignalReceiver PropertiesChangedReceiver])
        = [''/hci0'']"
    by (simp add: world_defs const_defs op_defs adapters_at_def)
  with start_failure_aborts_scan [where w = nothing_to_stop and t = 5 and s = "fresh [TimeoutElapsed]"] nr
  show "\<exists>s2 tr.
         scan nothing_to_stop 5 (fresh [TimeoutElapsed]) =
           (case run nothing_to_stop (timeout_add_seconds 5 s2) of
              None \<Rightarrow> None
            | Some s3 \<Rightarrow> Some (Inr PyNone, s3)) \<and>
         trace s2 = [AddSignalReceiver InterfacesAddedReceiver,
                     AddSignalReceiver PropertiesChangedReceiver, GetManagedObjects] @ tr \<and>
         list_all discovery_call tr \<and>
         Invoke (StartDiscovery ''/hci0'') None \<in> set tr"
    by (simp add: fresh_def)
  show a2: "adapters_at not_ready
        [AddSignalReceiver InterfacesAddedReceiver, AddSignalReceiver PropertiesChangedReceiver]
       = [] @ ''/hci0'' # [''/hci1'']"
    by (simp add: world_defs const_defs op_defs adapters_at_def)
  show fails: "\<forall>h. start_after_stop not_ready h ''/hci0'' \<noteq> None"
    by (simp add: not_ready_def start_after_stop_def)
  have "\<exists>m tr s'.
           scan not_ready 5 (fresh [TimeoutElapsed]) = Some (Inl (DBusException m), s') \<and>
           trace s' = trace (fresh [TimeoutElapsed]) @
                        [AddSignalReceiver InterfacesAddedReceiver,
                         AddSignalReceiver PropertiesChangedReceiver, GetManagedObjects] @ tr @
                        [Invoke (StartDiscovery ''/hci0'') (Some m)] \<and>
           (\<forall>x \<in> set tr. \<exists>b \<in> set ([] @ [''/hci0'']). adapter_of x = Some b) \<and>
           timers s' = timers (fresh [TimeoutElapsed]) \<and>
           running s' = running (fresh [TimeoutElapsed]) \<and>
           queue s' = queue (fresh [TimeoutElapsed])"
    using start_failure_aborts_scan
            [where w = not_ready and t = 5 and s = "fresh [TimeoutElapsed]",
             THEN conjunct2, THEN conjunct1, rule_format, of "[]" "''/hci0''" "[''/hci1'']"]
          a2 fails
    by (simp add: fresh_def)
  then show "\<exists>m tr s'.
         scan not_ready 5 (fresh [TimeoutElapsed]) = Some (Inl (DBusException m), s') \<and>
         trace s' = [AddSignalReceiver InterfacesAddedReceiver,
                     AddSignalReceiver PropertiesChangedReceiver, GetManagedObjects] @ tr @
                    [Invoke (StartDiscovery ''/hci0'') (Some m)] \<and>
         list_all (\<lambda>x. adapter_of x = Some ''/hci0'') tr \<and>
         timers s' = [] \<and> \<not> running s' \<and> queue s' = [TimeoutElapsed]"
    by (simp add: fresh_def list_all_iff)
  show first: "start_after_stop not_ready
        [AddSignalReceiver InterfacesAddedReceiver, AddSignalReceiver PropertiesChangedReceiver,
         GetManagedObjects] ''/hci0'' = Some ''NotReady''"
    by (simp add: not_ready_def start_after_stop_def)
  have stop: "refuses not_ready
        [AddSignalReceiver InterfacesAddedReceiver, AddSignalReceiver PropertiesChangedReceiver,
         GetManagedObjects] (StopDiscovery ''/hci0'') = None"
    by (simp add: not_ready_def)
  show "scan not_ready 5 (fresh [TimeoutElapsed]) =
       Some (Inl (DBusException ''NotReady''),
             \<lparr>trace = [AddSignalReceiver InterfacesAddedReceiver,
                        AddSignalReceiver PropertiesChangedReceiver, GetManagedObjects,
                        Invoke (StopDiscovery ''/hci0'') None,
                        Invoke (StartDiscovery ''/hci0'') (Some ''NotReady'')],
                receivers = [InterfacesAddedReceiver, PropertiesChangedReceiver],
                timers = [], pending = [], running = False, queue = [TimeoutElapsed]\<rparr>)"
    using start_failure_aborts_scan
            [where w = not_ready and t = 5 and s = "fresh [TimeoutElapsed]",
             THEN conjunct2, THEN conjunct2, THEN conjunct2, rule_format,
             of "[]" "''/hci0''" "[''/hci1'']"
                "\<lparr>trace = [AddSignalReceiver InterfacesAddedReceiver,
                           AddSignalReceiver PropertiesChangedReceiver, GetManagedObjects],
                   receivers = [InterfacesAddedReceiver, PropertiesChangedReceiver],
                   timers = [], pending = [], running = False, queue = [TimeoutElapsed]\<rparr>"
                "''NotReady''"]
          a2 first stop
    by (simp add: fresh_def)
qed

lemma scan_timeout_stops:
  assumes "\<forall>h a. in_loop h \<and> discovering h a \<longrightarrow> refuses w h (StopDiscovery a) = None"
      and "in_loop (trace s)" and "distinct (adapters_at w (trace s))"
      and "\<forall>a \<in> set (adapters_at w (trace s)). discovering (trace s) a"
  shows "scan_timeout w s =
     (Inr PyNone,
      s\<lparr>trace := trace s @ GetManagedObjects #
                   map (\<lambda>a. Invoke (StopDiscovery a) None) (adapters_at w (trace s)) @ [LoopQuit],
        running := False\<rparr>)"
proof -
  let ?s1 = "emit GetManagedObjects s"
  have "in_loop (trace ?s1)" using assms(2) by (simp add: emit_def in_loop_snoc)
  moreover have "\<forall>a \<in> set (adapters_at w (trace s)). discovering (trace ?s1) a"
    using assms(4) by (simp add: emit_def discovering_snoc)
  ultimately have "stop_each w (adapters_at w (trace s)) ?s1 =
      (Inr (), ?s1\<lparr>trace := trace ?s1 @
         map (\<lambda>a. Invoke (StopDiscovery a) None) (adapters_at w (trace s))\<rparr>)"
    using stop_each_stopped [OF assms(1) _ assms(3)] by blast
  then show ?thesis
    by (simp add: scan_timeout_def get_adapters resume_def emit_def)
qed

lemma scan_session:
  assumes "timers s = []" and "pending s = []"
      and "queue s = pre @ TimeoutElapsed # post" and "TimeoutElapsed \<notin> set pre"
      and start: "\<forall>h a. start_after_stop w h a = None"
      and stop: "\<forall>h a. in_loop h \<and> discovering h a \<longrightarrow> refuses w h (StopDiscovery a) = None"
      and ads: "\<forall>h. adapters_at w h = as" and dist: "distinct as"
  shows "\<exists>starts logs.
           scan w t s =
             Some (Inr PyNone,
                   s\<lparr>trace := trace s @
                        [AddSignalReceiver InterfacesAddedReceiver,
                         AddSignalReceiver PropertiesChangedReceiver, GetManagedObjects] @
                        starts @ [TimeoutAddSeconds t, LoopRun] @ logs @
                        GetManagedObjects # map (\<lambda>a. Invoke (StopDiscovery a) None) as @ [LoopQuit],
                      receivers := receivers s @ [InterfacesAddedReceiver, PropertiesChangedReceiver],
                      running := False, queue := post\<rparr>) \<and>
           list_all discovery_call starts \<and>
           (\<forall>a \<in> set as. Invoke (StartDiscovery a) None \<in> set starts) \<and>
           list_all signal_log logs"
proof -
  let ?h1 = "trace s @ [AddSignalReceiver InterfacesAddedReceiver,
                        AddSignalReceiver PropertiesChangedReceiver]"
  let ?rs = "receivers s @ [InterfacesAddedReceiver, PropertiesChangedReceiver]"
  let ?s1 = "s\<lparr>trace := trace s @ [AddSignalReceiver InterfacesAddedReceiver,
                                     AddSignalReceiver PropertiesChangedReceiver, GetManagedObjects],
                receivers := ?rs\<rparr>"
  have as1: "adapters_at w ?h1 = as" using ads by simp
  from start_each_started [OF start, of as ?s1] obtain starts where
    st: "start_each w as ?s1 = (Inr (), ?s1\<lparr>trace := trace ?s1 @ starts\<rparr>)"
    and on: "\<forall>x \<in> set starts. \<exists>a \<in> set as. adapter_of x = Some a"
    and started: "\<forall>a \<in> set as. Invoke (StartDiscovery a) None \<in> set starts \<and>
                   discovering (trace ?s1 @ starts) a"
    by blast
  let ?t3 = "trace ?s1 @ starts @ [TimeoutAddSeconds t, LoopRun]"
  let ?s3 = "s\<lparr>trace := ?t3, receivers := ?rs, timers := [t], running := True\<rparr>"
  have loop: "run w (timeout_add_seconds t (?s1\<lparr>trace := trace ?s1 @ starts\<rparr>)) =
      main_loop w (queue s) ?s3"
    using assms(1)
    by (cases s) (simp add: run_def timeout_add_seconds_def emit_def)
  have "scan w t s =
      (case run w (timeout_add_seconds t (?s1\<lparr>trace := trace ?s1 @ starts\<rparr>)) of
         None \<Rightarrow> None | Some s4 \<Rightarrow> Some (Inr PyNone, s4))"
    unfolding scan_unfold as1 st by simp
  then have scan: "scan w t s =
      (case main_loop w (queue s) ?s3 of None \<Rightarrow> None | Some s4 \<Rightarrow> Some (Inr PyNone, s4))"
    unfolding loop .
  have "running ?s3" by simp
  moreover have "\<forall>e \<in> set pre. quiet ?s3 e"
    using assms(2,4) by (auto intro!: quiet_while_scanning)
  ultimately obtain logs where
    logs: "main_loop w (pre @ TimeoutElapsed # post) ?s3 =
             main_loop w (TimeoutElapsed # post) (?s3\<lparr>trace := trace ?s3 @ logs\<rparr>)"
      "list_all signal_log logs"
    using main_loop_quiet_prefix by blast
  let ?s4 = "s\<lparr>trace := ?t3 @ logs, receivers := ?rs, timers := [], running := True\<rparr>"
  have inert: "\<forall>x \<in> set logs. x \<noteq> LoopRun \<and> x \<noteq> LoopQuit \<and> adapter_of x = None"
    using logs(2) by (auto simp: list_all_iff dest: signal_log_inert)
  have "in_loop ((trace ?s1 @ starts @ [TimeoutAddSeconds t]) @ [LoopRun])"
    by (simp only: in_loop_snoc) simp
  moreover have "\<forall>x \<in> set logs. x \<noteq> LoopRun \<and> x \<noteq> LoopQuit" using inert by simp
  ultimately have "in_loop (((trace ?s1 @ starts @ [TimeoutAddSeconds t]) @ [LoopRun]) @ logs)"
    using in_loop_append [of logs "(trace ?s1 @ starts @ [TimeoutAddSeconds t]) @ [LoopRun]"] by blast
  then have il: "in_loop (trace ?s4)" by simp
  have disc: "\<forall>a \<in> set as. discovering (trace ?s4) a"
  proof
    fix a assume "a \<in> set as"
    with started have "discovering (trace ?s1 @ starts) a" by simp
    moreover have "\<forall>x \<in> set ([TimeoutAddSeconds t, LoopRun] @ logs). adapter_of x \<noteq> Some a"
      using inert by auto
    ultimately have "discovering ((trace ?s1 @ starts) @ [TimeoutAddSeconds t, LoopRun] @ logs) a"
      using discovering_append [of "[TimeoutAddSeconds t, LoopRun] @ logs" a "trace ?s1 @ starts"]
      by blast
    then show "discovering (trace ?s4) a" by simp
  qed
  have "scan_timeout w ?s4 =
     (Inr PyNone,
      ?s4\<lparr>trace := trace ?s4 @ GetManagedObjects #
                   map (\<lambda>a. Invoke (StopDiscovery a) None) (adapters_at w (trace ?s4)) @ [LoopQuit],
        running := False\<rparr>)"
    using il disc dist ads by (intro scan_timeout_stops [OF stop]) simp_all
  then have cb: "snd (scan_timeout w ?s4) =
      s\<lparr>trace := ?t3 @ logs @ GetManagedObjects #
                    map (\<lambda>a. Invoke (StopDiscovery a) None) as @ [LoopQuit],
         receivers := ?rs, timers := [], running := False\<rparr>"
    using ads by (cases s) simp
  have eq: "?s3\<lparr>trace := trace ?s3 @ logs\<rparr>\<lparr>timers := []\<rparr> = ?s4" by (cases s) simp
  have "dispatch w TimeoutElapsed (?s3\<lparr>trace := trace ?s3 @ logs\<rparr>) =
      snd (scan_timeout w (?s3\<lparr>trace := trace ?s3 @ logs\<rparr>\<lparr>timers := []\<rparr>))"
    by simp
  then have "dispatch w TimeoutElapsed (?s3\<lparr>trace := trace ?s3 @ logs\<rparr>) = snd (scan_timeout w ?s4)"
    by (simp only: eq)
  with cb assms(1) have "main_loop w (TimeoutElapsed # post) (?s3\<lparr>trace := trace ?s3 @ logs\<rparr>) =
      Some (s\<lparr>trace := trace s @
                 [AddSignalReceiver InterfacesAddedReceiver,
                  AddSignalReceiver PropertiesChangedReceiver, GetManagedObjects] @
                 starts @ [TimeoutAddSeconds t, LoopRun] @ logs @
                 GetManagedObjects # map (\<lambda>a. Invoke (StopDiscovery a) None) as @ [LoopQuit],
              receivers := ?rs, running := False, queue := post\<rparr>)"
    by (cases s) (simp del: dispatch.simps)
  with scan logs(1) assms(3) have "scan w t s =
             Some (Inr PyNone,
                   s\<lparr>trace := trace s @
                        [AddSignalReceiver InterfacesAddedReceiver,
                         AddSignalReceiver PropertiesChangedReceiver, GetManagedObjects] @
                        starts @ [TimeoutAddSeconds t, LoopRun] @ logs @
                        GetManagedObjects # map (\<lambda>a. Invoke (StopDiscovery a) None) as @ [LoopQuit],
                      receivers := ?rs, running := False, queue := post\<rparr>)"
    by simp
  moreover have "list_all discovery_call starts"
    using on by (auto simp: list_all_iff dest: adapter_of_discovery_call)
  ultimately show ?thesis using started logs(2) by blast
qed

lemma visit_not_Escaped: "visit category filters obj \<noteq> Escaped e"
  by (auto simp: visit_def split: sum.splits verdict.splits exn.splits
           dest: try_body_raises_KeyError)

lemma selected_provides: "selected category filters ifs \<Longrightarrow> provides ifs DEVICE_IFACE"
  by (auto simp: selected_def provides_def split: option.splits)

lemma devices_loop_static:
  assumes "distinct (map fst m)" and "\<forall>h. objects w (trace s @ h) = m" and "set ps \<subseteq> set m"
  shows "fst (devices_loop w category filters
                (map fst (filter (\<lambda>(p, ifs). provides ifs DEVICE_IFACE) ps)) s) =
         (map fst (filter (\<lambda>(p, ifs). selected category filters ifs) ps), None)"
  using assms(2,3)
proof (induction ps arbitrary: s)
  case Nil
  show ?case by simp
next
  case (Cons x ps)
  obtain p ifs where x: "x = (p, ifs)" by (cases x)
  from Cons.prems have here: "objects w (trace s) = m"
    by (metis append_Nil2)
  from Cons.prems x have mem: "(p, ifs) \<in> set m" and rest: "set ps \<subseteq> set m" by simp_all
  from mem assms(1) have look: "map_of m p = Some ifs" by simp
  show ?case
  proof (cases "provides ifs DEVICE_IFACE")
    case False
    then have "\<not> selected category filters ifs" using selected_provides by blast
    with False x Cons.IH [OF Cons.prems(1) rest] show ?thesis by simp
  next
    case True
    then obtain obj where obj: "map_of ifs DEVICE_IFACE = Some obj" "obj \<noteq> []"
      by (auto simp: provides_def split: option.splits)
    let ?s1 = "emit GetManagedObjects s"
    have later: "\<forall>h. objects w (trace s1 @ h) = m"
      if "\<exists>tr. trace s1 = trace s @ tr" for s1 :: state
      using that Cons.prems(1) by (metis append.assoc)
    have sel: "selected category filters ifs \<longleftrightarrow> visit category filters obj = Yielded"
      using obj by (simp add: selected_def)
    show ?thesis
    proof (cases "visit category filters obj")
      case Yielded
      have "\<forall>h. objects w (trace ?s1 @ h) = m" by (rule later) (simp add: emit_def)
      from Cons.IH [OF this rest] Yielded True x look obj here sel show ?thesis
        by (simp add: get_object_by_path_def getitem_def split_def)
    next
      case Skipped
      have "\<forall>h. objects w (trace ?s1 @ h) = m" by (rule later) (simp add: emit_def)
      from Cons.IH [OF this rest] Skipped True x look obj here sel show ?thesis
        by (simp add: get_object_by_path_def getitem_def)
    next
      case (SkippedLogged k)
      have "\<forall>h. objects w (trace (log Info (PropertyNotFound k p) ?s1) @ h) = m"
        by (rule later) (simp add: emit_def log_def)
      from Cons.IH [OF this rest] SkippedLogged True x look obj here sel show ?thesis
        by (simp add: get_object_by_path_def getitem_def)
    next
      case (Escaped e)
      then show ?thesis using visit_not_Escaped by blast
    qed
  qed
qed

lemma get_bt_devices_static:
  assumes "distinct (map fst m)" and "\<forall>h. objects w (trace s @ h) = m"
  shows "fst (get_bt_devices w category filters s) = (matching category filters m, None)"
proof -
  have here: "objects w (trace s) = m" using assms(2) by (metis append_Nil2)
  have "\<forall>h. objects w (trace (emit GetManagedObjects s) @ h) = m"
    using assms(2) by (simp add: emit_def)
  from devices_loop_static [OF assms(1) this, of m category filters] here show ?thesis
    by (simp add: get_bt_devices_def get_objects_by_iface_def matching_def)
qed

lemma get_bt_devices_none:
  assumes "\<forall>x \<in> set (objects w (trace s)). \<not> provides (snd x) DEVICE_IFACE"
  shows "fst (get_bt_devices w category filters s) = ([], None)"
proof -
  have "filter (\<lambda>(p, ifs). provides ifs DEVICE_IFACE) (objects w (trace s)) = []"
    using assms by (auto simp: filter_empty_conv)
  then show ?thesis
    by (simp add: get_bt_devices_def get_objects_by_iface_def)
qed

lemma bluez_disciplined:
  "\<forall>h a. start_after_stop bluez h a = None"
  "\<forall>h a. in_loop h \<and> discovering h a \<longrightarrow> refuses bluez h (StopDiscovery a) = None"
  "\<forall>h. adapters_at bluez h = [''/hci0'']"
  by (simp_all add: start_after_stop_def bluez_def discovering_snoc adapters_at_def
        get_objects_by_iface_def provides_def hci0_def dev_1_def dev_2_def const_defs)

text \<open>
  C3, as amended. Take a \<^verbatim>\<open>scan\<close> call with timeout \<open>t\<close> on an idle manager, to whose
  loop the timeout is delivered, on a bus where a \<^verbatim>\<open>StartDiscovery()\<close> that follows the
  stop attempt on its adapter does not fail, a \<^verbatim>\<open>StopDiscovery()\<close> issued while the loop
  runs on an adapter with this client's discovery active does not fail, and the adapters
  are the same (with distinct paths) at every enumeration; the \<^verbatim>\<open>StopDiscovery()\<close>
  before each start may fail. The call returns \<^verbatim>\<open>None\<close>, and only after the timer
  callback has stopped discovery on every adapter and quit the loop. It takes no filter
  and returns no devices. The devices known to the catalog that pass the filter are what
  \<^verbatim>\<open>get_bt_devices\<close> yields when called afterwards, provided the object tree (paths
  distinct) does not change from then on; and that call yields nothing when the tree it
  enumerates holds no device. Elapsed time is not part of the model: the timeout is an
  event of the loop.
\<close>

theorem scan_returns_None_after_timeout:
  assumes "timers s = []" and "pending s = []"
      and "TimeoutElapsed \<in> set (queue s)"
      and "\<forall>h a. start_after_stop w h a = None"
      and "\<forall>h a. in_loop h \<and> discovering h a \<longrightarrow> refuses w h (StopDiscovery a) = None"
      and "\<forall>h. adapters_at w h = as" and "distinct as"
  shows "\<exists>s' starts logs.
           scan w t s = Some (Inr PyNone, s') \<and>
           trace s' = trace s @
             [AddSignalReceiver InterfacesAddedReceiver,
              AddSignalReceiver PropertiesChangedReceiver, GetManagedObjects] @
             starts @ [TimeoutAddSeconds t, LoopRun] @ logs @
             GetManagedObjects # map (\<lambda>a. Invoke (StopDiscovery a) None) as @ [LoopQuit] \<and>
           list_all discovery_call starts \<and>
           (\<forall>a \<in> set as. Invoke (StartDiscovery a) None \<in> set starts) \<and>
           list_all signal_log logs \<and>
           timers s' = [] \<and> pending s' = [] \<and> \<not> running s' \<and>
           (\<forall>m. distinct (map fst m) \<and> (\<forall>h. objects w (trace s' @ h) = m) \<longrightarrow>
                fst (get_bt_devices w category filters s') = (matching category filters m, None)) \<and>
           ((\<forall>x \<in> set (objects w (trace s')). \<not> provides (snd x) DEVICE_IFACE) \<longrightarrow>
                fst (get_bt_devices w category filters s') = ([], None))"
proof -
  from assms(3) obtain pre post where
    q: "queue s = pre @ TimeoutElapsed # post" "TimeoutElapsed \<notin> set pre"
    by (meson split_list_first)
  let ?tr = "\<lambda>starts logs. trace s @
             [AddSignalReceiver InterfacesAddedReceiver,
              AddSignalReceiver PropertiesChangedReceiver, GetManagedObjects] @
             starts @ [TimeoutAddSeconds t, LoopRun] @ logs @
             GetManagedObjects # map (\<lambda>a. Invoke (StopDiscovery a) None) as @ [LoopQuit]"
  from scan_session [OF assms(1) assms(2) q assms(4) assms(5) assms(6) assms(7), of t]
  obtain starts logs where
    run: "scan w t s =
             Some (Inr PyNone,
                   s\<lparr>trace := ?tr starts logs,
                      receivers := receivers s @ [InterfacesAddedReceiver, PropertiesChangedReceiver],
                      running := False, queue := post\<rparr>)"
    and starts: "list_all discovery_call starts"
      "\<forall>a \<in> set as. Invoke (StartDiscovery a) None \<in> set starts"
    and logs: "list_all signal_log logs"
    by blast
  let ?s' = "s\<lparr>trace := ?tr starts logs,
                receivers := receivers s @ [InterfacesAddedReceiver, PropertiesChangedReceiver],
                running := False, queue := post\<rparr>"
  have "trace ?s' = ?tr starts logs" "timers ?s' = []" "pending ?s' = []" "\<not> running ?s'"
    using assms(1,2) by simp_all
  moreover have "\<forall>m. distinct (map fst m) \<and> (\<forall>h. objects w (trace ?s' @ h) = m) \<longrightarrow>
      fst (get_bt_devices w category filters ?s') = (matching category filters m, None)"
    using get_bt_devices_static by blast
  moreover have "(\<forall>x \<in> set (objects w (trace ?s')). \<not> provides (snd x) DEVICE_IFACE) \<longrightarrow>
      fst (get_bt_devices w category filters ?s') = ([], None)"
    using get_bt_devices_none by blast
  ultimately show ?thesis using run starts logs by blast
qed

theorem scan_returns_None_after_timeout_witness:
  "timers (fresh [InterfacesAdded ''/hci0/dev_1'', TimeoutElapsed]) = []
   \<and> pending (fresh [InterfacesAdded ''/hci0/dev_1'', TimeoutElapsed]) = []
   \<and> TimeoutElapsed \<in> set (queue (fresh [InterfacesAdded ''/hci0/dev_1'', TimeoutElapsed]))
   \<and> (\<forall>h a. start_after_stop bluez h a = None)
   \<and> (\<forall>h. adapters_at bluez h = [''/hci0''])
   \<and> refuses bluez [] (StopDiscovery ''/hci0'') = Some ''No discovery started''
   \<and> (\<exists>s' starts logs.
         scan bluez 5 (fresh [InterfacesAdded ''/hci0/dev_1'', TimeoutElapsed]) = Some (Inr PyNone, s') \<and>
         trace s' =
           [AddSignalReceiver InterfacesAddedReceiver,
            AddSignalReceiver PropertiesChangedReceiver, GetManagedObjects] @
           starts @ [TimeoutAddSeconds 5, LoopRun] @ logs @
           [GetManagedObjects, Invoke (StopDiscovery ''/hci0'') None, LoopQuit] \<and>
         Invoke (StartDiscovery ''/hci0'') None \<in> set starts \<and>
         list_all signal_log logs \<and>
         timers s' = [] \<and> pending s' = [] \<and> \<not> running s' \<and>
         fst (get_bt_devices bluez BT_KEYBOARD [] s') = ([''/hci0/dev_1''], None))"
proof -
  have m: "matching BT_KEYBOARD [] [hci0, dev_1, dev_2] = [''/hci0/dev_1'']"
    by (simp add: matching_def selected_def world_defs const_defs op_defs)
  have d: "distinct (map fst [hci0, dev_1, dev_2])"
    by (simp add: hci0_def dev_1_def dev_2_def)
  have st: "\<forall>h. objects bluez (tr @ h) = [hci0, dev_1, dev_2]" for tr
    by (simp add: bluez_def)
  have "\<exists>s' starts logs.
           scan bluez 5 (fresh [InterfacesAdded ''/hci0/dev_1'', TimeoutElapsed]) = Some (Inr PyNone, s') \<and>
           trace s' =
             [AddSignalReceiver InterfacesAddedReceiver,
              AddSignalReceiver PropertiesChangedReceiver, GetManagedObjects] @
             starts @ [TimeoutAddSeconds 5, LoopRun] @ logs @
             [GetManagedObjects, Invoke (StopDiscovery ''/hci0'') None, LoopQuit] \<and>
           list_all discovery_call starts \<and>
           (\<forall>a \<in> set [''/hci0'']. Invoke (StartDiscovery a) None \<in> set starts) \<and>
           list_all signal_log logs \<and>
           timers s' = [] \<and> pending s' = [] \<and> \<not> running s' \<and>
           (\<forall>m. distinct (map fst m) \<and> (\<forall>h. objects bluez (trace s' @ h) = m) \<longrightarrow>
                fst (get_bt_devices bluez BT_KEYBOARD [] s') = (matching BT_KEYBOARD [] m, None)) \<and>
           ((\<forall>x \<in> set (objects bluez (trace s')). \<not> provides (snd x) DEVICE_IFACE) \<longrightarrow>
                fst (get_bt_devices bluez BT_KEYBOARD [] s') = ([], None))"
    using scan_returns_None_after_timeout
         [of "fresh [InterfacesAdded ''/hci0/dev_1'', TimeoutElapsed]" bluez "[''/hci0'']" 5
             BT_KEYBOARD "[]", OF _ _ _ bluez_disciplined]
    by (simp add: fresh_def)
  then obtain s' starts logs where
    "scan bluez 5 (fresh [InterfacesAdded ''/hci0/dev_1'', TimeoutElapsed]) = Some (Inr PyNone, s')"
    "trace s' =
             [AddSignalReceiver InterfacesAddedReceiver,
              AddSignalReceiver PropertiesChangedReceiver, GetManagedObjects] @
             starts @ [TimeoutAddSeconds 5, LoopRun] @ logs @
             [GetManagedObjects, Invoke (StopDiscovery ''/hci0'') None, LoopQuit]"
    "\<forall>a \<in> set [''/hci0'']. Invoke (StartDiscovery a) None \<in> set starts"
    "list_all signal_log logs" "timers s' = []" "pending s' = []" "\<not> running s'"
    "\<forall>m. distinct (map fst m) \<and> (\<forall>h. objects bluez (trace s' @ h) = m) \<longrightarrow>
        fst (get_bt_devices bluez BT_KEYBOARD [] s') = (matching BT_KEYBOARD [] m, None)"
    by blast
  moreover from this have "Invoke (StartDiscovery ''/hci0'') None \<in> set starts" by simp
  ultimately have "\<exists>s' starts logs.
         scan bluez 5 (fresh [InterfacesAdded ''/hci0/dev_1'', TimeoutElapsed]) = Some (Inr PyNone, s') \<and>
         trace s' =
           [AddSignalReceiver InterfacesAddedReceiver,
            AddSignalReceiver PropertiesChangedReceiver, GetManagedObjects] @
           starts @ [TimeoutAddSeconds 5, LoopRun] @ logs @
           [GetManagedObjects, Invoke (StopDiscovery ''/hci0'') None, LoopQuit] \<and>
         Invoke (StartDiscovery ''/hci0'') None \<in> set starts \<and>
         list_all signal_log logs \<and>
         timers s' = [] \<and> pending s' = [] \<and> \<not> running s' \<and>
         fst (get_bt_devices bluez BT_KEYBOARD [] s') = ([''/hci0/dev_1''], None)"
    using d st [of "trace s'"] m by metis
  moreover have "refuses bluez [] (StopDiscovery ''/hci0'') = Some ''No discovery started''"
    by (simp add: bluez_def discovering_def)
  ultimately show ?thesis using bluez_disciplined by (simp add: fresh_def)
qed

text \<open>
  Against C3 as stated: with two devices in the catalog that pass the wildcard filter,
  \<^verbatim>\<open>scan\<close> returns \<^verbatim>\<open>None\<close>, not those devices.
\<close>

theorem scan_returns_None_not_devices:
  "scan calm 5 (fresh [TimeoutElapsed]) =
     Some (Inr PyNone,
           \<lparr>trace = [AddSignalReceiver InterfacesAddedReceiver,
                      AddSignalReceiver PropertiesChangedReceiver, GetManagedObjects,
                      Invoke (StopDiscovery ''/hci0'') None,
                      Invoke (StartDiscovery ''/hci0'') None, TimeoutAddSeconds 5, LoopRun,
                      GetManagedObjects, Invoke (StopDiscovery ''/hci0'') None, LoopQuit],
              receivers = [InterfacesAddedReceiver, PropertiesChangedReceiver],
              timers = [], pending = [], running = False, queue = []\<rparr>)
   \<and> matching BT_ANY [] (objects calm []) = [''/hci0/dev_1'', ''/hci0/dev_2'']"
  by (simp add: world_defs const_defs op_defs scan_defs matching_def selected_def)

text \<open>
  C9, as amended. Two \<^verbatim>\<open>scan\<close> calls in sequence on one idle manager, a timeout
  delivered to each loop, on a bus as in C3 (the \<^verbatim>\<open>StopDiscovery()\<close> before each start
  may fail, as it does in a second scan whose discovery the first scan's timer has
  stopped): each call runs a whole session of its own (enumeration, a stop attempt and a
  start per adapter, its own timer, the loop, a stop per adapter, quit) and returns
  \<^verbatim>\<open>None\<close>; after each, no timer is armed and the loop is not running. The signal
  receivers are not reset: each call adds two more, so after the second call four are
  registered.
\<close>

theorem sequential_scans_accumulate_receivers:
  assumes "timers s = []" and "pending s = []"
      and "queue s = q1 @ TimeoutElapsed # q2 @ TimeoutElapsed # q3"
      and "TimeoutElapsed \<notin> set q1" and "TimeoutElapsed \<notin> set q2"
      and "\<forall>h a. start_after_stop w h a = None"
      and "\<forall>h a. in_loop h \<and> discovering h a \<longrightarrow> refuses w h (StopDiscovery a) = None"
      and "\<forall>h. adapters_at w h = as" and "distinct as"
  shows "\<exists>s1 s2 starts1 logs1 starts2 logs2.
           scan w t1 s = Some (Inr PyNone, s1) \<and> scan w t2 s1 = Some (Inr PyNone, s2) \<and>
           trace s1 = trace s @
             [AddSignalReceiver InterfacesAddedReceiver,
              AddSignalReceiver PropertiesChangedReceiver, GetManagedObjects] @
             starts1 @ [TimeoutAddSeconds t1, LoopRun] @ logs1 @
             GetManagedObjects # map (\<lambda>a. Invoke (StopDiscovery a) None) as @ [LoopQuit] \<and>
           trace s2 = trace s1 @
             [AddSignalReceiver InterfacesAddedReceiver,
              AddSignalReceiver PropertiesChangedReceiver, GetManagedObjects] @
             starts2 @ [TimeoutAddSeconds t2, LoopRun] @ logs2 @
             GetManagedObjects # map (\<lambda>a. Invoke (StopDiscovery a) None) as @ [LoopQuit] \<and>
           list_all discovery_call starts1 \<and> list_all discovery_call starts2 \<and>
           (\<forall>a \<in> set as. Invoke (StartDiscovery a) None \<in> set starts1 \<and>
                           Invoke (StartDiscovery a) None \<in> set starts2) \<and>
           list_all signal_log logs1 \<and> list_all signal_log logs2 \<and>
           timers s1 = [] \<and> pending s1 = [] \<and> \<not> running s1 \<and>
           queue s1 = q2 @ TimeoutElapsed # q3 \<and>
           timers s2 = [] \<and> pending s2 = [] \<and> \<not> running s2 \<and> queue s2 = q3 \<and>
           receivers s1 = receivers s @ [InterfacesAddedReceiver, PropertiesChangedReceiver] \<and>
           receivers s2 = receivers s @ [InterfacesAddedReceiver, PropertiesChangedReceiver,
                                         InterfacesAddedReceiver, PropertiesChangedReceiver]"
proof -
  let ?tr = "\<lambda>h t starts logs. h @
             [AddSignalReceiver InterfacesAddedReceiver,
              AddSignalReceiver PropertiesChangedReceiver, GetManagedObjects] @
             starts @ [TimeoutAddSeconds t, LoopRun] @ logs @
             GetManagedObjects # map (\<lambda>a. Invoke (StopDiscovery a) None) as @ [LoopQuit]"
  from scan_session [OF assms(1) assms(2) assms(3) assms(4) assms(6) assms(7) assms(8) assms(9), of t1]
  obtain starts1 logs1 where
    run1: "scan w t1 s =
             Some (Inr PyNone,
                   s\<lparr>trace := ?tr (trace s) t1 starts1 logs1,
                      receivers := receivers s @ [InterfacesAddedReceiver, PropertiesChangedReceiver],
                      running := False, queue := q2 @ TimeoutElapsed # q3\<rparr>)"
    and f1: "list_all discovery_call starts1"
      "\<forall>a \<in> set as. Invoke (StartDiscovery a) None \<in> set starts1"
      "list_all signal_log logs1"
    by blast
  let ?s1 = "s\<lparr>trace := ?tr (trace s) t1 starts1 logs1,
                receivers := receivers s @ [InterfacesAddedReceiver, PropertiesChangedReceiver],
                running := False, queue := q2 @ TimeoutElapsed # q3\<rparr>"
  have s1: "timers ?s1 = []" "pending ?s1 = []" "queue ?s1 = q2 @ TimeoutElapsed # q3"
    using assms(1,2) by simp_all
  from scan_session [OF s1 assms(5) assms(6) assms(7) assms(8) assms(9), of t2]
  obtain starts2 logs2 where
    run2: "scan w t2 ?s1 =
             Some (Inr PyNone,
                   ?s1\<lparr>trace := ?tr (trace ?s1) t2 starts2 logs2,
                      receivers := receivers ?s1 @ [InterfacesAddedReceiver, PropertiesChangedReceiver],
                      running := False, queue := q3\<rparr>)"
    and f2: "list_all discovery_call starts2"
      "\<forall>a \<in> set as. Invoke (StartDiscovery a) None \<in> set starts2"
      "list_all signal_log logs2"
    by blast
  let ?s2 = "?s1\<lparr>trace := ?tr (trace ?s1) t2 starts2 logs2,
                      receivers := receivers ?s1 @ [InterfacesAddedReceiver, PropertiesChangedReceiver],
                      running := False, queue := q3\<rparr>"
  have "trace ?s1 = ?tr (trace s) t1 starts1 logs1" "trace ?s2 = ?tr (trace ?s1) t2 starts2 logs2"
       "timers ?s1 = []" "pending ?s1 = []" "\<not> running ?s1" "queue ?s1 = q2 @ TimeoutElapsed # q3"
       "timers ?s2 = []" "pending ?s2 = []" "\<not> running ?s2" "queue ?s2 = q3"
       "receivers ?s1 = receivers s @ [InterfacesAddedReceiver, PropertiesChangedReceiver]"
       "receivers ?s2 = receivers s @ [InterfacesAddedReceiver, PropertiesChangedReceiver,
                                         InterfacesAddedReceiver, PropertiesChangedReceiver]"
    using assms(1,2) by simp_all
  moreover have "\<forall>a \<in> set as. Invoke (StartDiscovery a) None \<in> set starts1 \<and>
                           Invoke (StartDiscovery a) None \<in> set starts2"
    using f1(2) f2(2) by blast
  ultimately show ?thesis using run1 run2 f1(1,3) f2(1,3) by blast
qed

theorem sequential_scans_accumulate_receivers_witness:
  "(\<forall>h a. start_after_stop bluez h a = None)
   \<and> (\<forall>h. adapters_at bluez h = [''/hci0''])
   \<and> (\<exists>s1 s2 starts1 logs1 starts2 logs2.
         scan bluez 5 (fresh [TimeoutElapsed, InterfacesAdded ''/hci0/dev_1'', TimeoutElapsed])
           = Some (Inr PyNone, s1) \<and>
         scan bluez 7 s1 = Some (Inr PyNone, s2) \<and>
         trace s1 =
           [AddSignalReceiver InterfacesAddedReceiver,
            AddSignalReceiver PropertiesChangedReceiver, GetManagedObjects] @
           starts1 @ [TimeoutAddSeconds 5, LoopRun] @ logs1 @
           [GetManagedObjects, Invoke (StopDiscovery ''/hci0'') None, LoopQuit] \<and>
         trace s2 = trace s1 @
           [AddSignalReceiver InterfacesAddedReceiver,
            AddSignalReceiver PropertiesChangedReceiver, GetManagedObjects] @
           starts2 @ [TimeoutAddSeconds 7, LoopRun] @ logs2 @
           [GetManagedObjects, Invoke (StopDiscovery ''/hci0'') None, LoopQuit] \<and>
         Invoke (StartDiscovery ''/hci0'') None \<in> set starts1 \<and>
         Invoke (StartDiscovery ''/hci0'') None \<in> set starts2 \<and>
         queue s1 = [InterfacesAdded ''/hci0/dev_1'', TimeoutElapsed] \<and> queue s2 = [] \<and>
         timers s2 = [] \<and> pending s2 = [] \<and> \<not> running s2 \<and>
         receivers s1 = [InterfacesAddedReceiver, PropertiesChangedReceiver] \<and>
         receivers s2 = [InterfacesAddedReceiver, PropertiesChangedReceiver,
                         InterfacesAddedReceiver, PropertiesChangedReceiver])
   \<and> Invoke (StopDiscovery ''/hci0'') (Some ''No discovery started'')
       \<in> set (drop 10 (case scan bluez 5
                            (fresh [TimeoutElapsed, InterfacesAdded ''/hci0/dev_1'', TimeoutElapsed]) of
                          None \<Rightarrow> []
                        | Some (r1, s1) \<Rightarrow>
                            (case scan bluez 7 s1 of None \<Rightarrow> [] | Some (r2, s2) \<Rightarrow> trace s2)))"
proof -
  have "\<exists>s1 s2 starts1 logs1 starts2 logs2.
           scan bluez 5 (fresh [TimeoutElapsed, InterfacesAdded ''/hci0/dev_1'', TimeoutElapsed])
             = Some (Inr PyNone, s1) \<and>
           scan bluez 7 s1 = Some (Inr PyNone, s2) \<and>
           trace s1 =
             [AddSignalReceiver InterfacesAddedReceiver,
              AddSignalReceiver PropertiesChangedReceiver, GetManagedObjects] @
             starts1 @ [TimeoutAddSeconds 5, LoopRun] @ logs1 @
             [GetManagedObjects, Invoke (StopDiscovery ''/hci0'') None, LoopQuit] \<and>
           trace s2 = trace s1 @
             [AddSignalReceiver InterfacesAddedReceiver,
              AddSignalReceiver PropertiesChangedReceiver, GetManagedObjects] @
             starts2 @ [TimeoutAddSeconds 7, LoopRun] @ logs2 @
             [GetManagedObjects, Invoke (StopDiscovery ''/hci0'') None, LoopQuit] \<and>
           list_all discovery_call starts1 \<and> list_all discovery_call starts2 \<and>
           (\<forall>a \<in> set [''/hci0'']. Invoke (StartDiscovery a) None \<in> set starts1 \<and>
                           Invoke (StartDiscovery a) None \<in> set starts2) \<and>
           list_all signal_log logs1 \<and> list_all signal_log logs2 \<and>
           timers s1 = [] \<and> pending s1 = [] \<and> \<not> running s1 \<and>
           queue s1 = [InterfacesAdded ''/hci0/dev_1'', TimeoutElapsed] \<and>
           timers s2 = [] \<and> pending s2 = [] \<and> \<not> running s2 \<and> queue s2 = [] \<and>
           receivers s1 = [InterfacesAddedReceiver, PropertiesChangedReceiver] \<and>
           receivers s2 = [InterfacesAddedReceiver, PropertiesChangedReceiver,
                           InterfacesAddedReceiver, PropertiesChangedReceiver]"
    using sequential_scans_accumulate_receivers
            [of "fresh [TimeoutElapsed, InterfacesAdded ''/hci0/dev_1'', TimeoutElapsed]"
                "[]" "[InterfacesAdded ''/hci0/dev_1'']" "[]" bluez "[''/hci0'']" 5 7,
             OF _ _ _ _ _ bluez_disciplined]
    by (simp add: fresh_def)
  then obtain s1 s2 starts1 logs1 starts2 logs2 where f:
    "scan bluez 5 (fresh [TimeoutElapsed, InterfacesAdded ''/hci0/dev_1'', TimeoutElapsed])
       = Some (Inr PyNone, s1)"
    "scan bluez 7 s1 = Some (Inr PyNone, s2)"
    "trace s1 =
       [AddSignalReceiver InterfacesAddedReceiver,
        AddSignalReceiver PropertiesChangedReceiver, GetManagedObjects] @
       starts1 @ [TimeoutAddSeconds 5, LoopRun] @ logs1 @
       [GetManagedObjects, Invoke (StopDiscovery ''/hci0'') None, LoopQuit]"
    "trace s2 = trace s1 @
       [AddSignalReceiver InterfacesAddedReceiver,
        AddSignalReceiver PropertiesChangedReceiver, GetManagedObjects] @
       starts2 @ [TimeoutAddSeconds 7, LoopRun] @ logs2 @
       [GetManagedObjects, Invoke (StopDiscovery ''/hci0'') None, LoopQuit]"
    "\<forall>a \<in> set [''/hci0'']. Invoke (StartDiscovery a) None \<in> set starts1 \<and>
                           Invoke (StartDiscovery a) None \<in> set starts2"
    "queue s1 = [InterfacesAdded ''/hci0/dev_1'', TimeoutElapsed]" "queue s2 = []"
    "timers s2 = []" "pending s2 = []" "\<not> running s2"
    "receivers s1 = [InterfacesAddedReceiver, PropertiesChangedReceiver]"
    "receivers s2 = [InterfacesAddedReceiver, PropertiesChangedReceiver,
                     InterfacesAddedReceiver, PropertiesChangedReceiver]"
    by blast
  from f(5) have g: "Invoke (StartDiscovery ''/hci0'') None \<in> set starts1"
      "Invoke (StartDiscovery ''/hci0'') None \<in> set starts2" by simp_all
  have "\<exists>s1 s2 starts1 logs1 starts2 logs2.
         scan bluez 5 (fresh [TimeoutElapsed, InterfacesAdded ''/hci0/dev_1'', TimeoutElapsed])
           = Some (Inr PyNone, s1) \<and>
         scan bluez 7 s1 = Some (Inr PyNone, s2) \<and>
         trace s1 =
           [AddSignalReceiver InterfacesAddedReceiver,
            AddSignalReceiver PropertiesChangedReceiver, GetManagedObjects] @
           starts1 @ [TimeoutAddSeconds 5, LoopRun] @ logs1 @
           [GetManagedObjects, Invoke (StopDiscovery ''/hci0'') None, LoopQuit] \<and>
         trace s2 = trace s1 @
           [AddSignalReceiver InterfacesAddedReceiver,
            AddSignalReceiver PropertiesChangedReceiver, GetManagedObjects] @
           starts2 @ [TimeoutAddSeconds 7, LoopRun] @ logs2 @
           [GetManagedObjects, Invoke (StopDiscovery ''/hci0'') None, LoopQuit] \<and>
         Invoke (StartDiscovery ''/hci0'') None \<in> set starts1 \<and>
         Invoke (StartDiscovery ''/hci0'') None \<in> set starts2 \<and>
         queue s1 = [InterfacesAdded ''/hci0/dev_1'', TimeoutElapsed] \<and> queue s2 = [] \<and>
         timers s2 = [] \<and> pending s2 = [] \<and> \<not> running s2 \<and>
         receivers s1 = [InterfacesAddedReceiver, PropertiesChangedReceiver] \<and>
         receivers s2 = [InterfacesAddedReceiver, PropertiesChangedReceiver,
                         InterfacesAddedReceiver, PropertiesChangedReceiver]"
    using f(1-4,6-12) g by blast
  moreover have "Invoke (StopDiscovery ''/hci0'') (Some ''No discovery started'')
       \<in> set (drop 10 (case scan bluez 5
                            (fresh [TimeoutElapsed, InterfacesAdded ''/hci0/dev_1'', TimeoutElapsed]) of
                          None \<Rightarrow> []
                        | Some (r1, s1) \<Rightarrow>
                            (case scan bluez 7 s1 of None \<Rightarrow> [] | Some (r2, s2) \<Rightarrow> trace s2)))"
    by (simp add: world_defs const_defs op_defs scan_defs interfaces_added_def discovering_def)
  ultimately show ?thesis using bluez_disciplined by simp
qed

text \<open>
  Against C9 as stated: the receivers of the first scan are carried over into the second,
  where the one \<^verbatim>\<open>InterfacesAdded\<close> signal is handled, and logged, twice.
\<close>

theorem second_scan_logs_each_signal_twice:
  "scan calm 5 (fresh [TimeoutElapsed, InterfacesAdded ''/hci0/dev_1'', TimeoutElapsed]) =
     Some (Inr PyNone,
           \<lparr>trace = [AddSignalReceiver InterfacesAddedReceiver,
                      AddSignalReceiver PropertiesChangedReceiver, GetManagedObjects,
                      Invoke (StopDiscovery ''/hci0'') None,
                      Invoke (StartDiscovery ''/hci0'') None, TimeoutAddSeconds 5, LoopRun,
                      GetManagedObjects, Invoke (StopDiscovery ''/hci0'') None, LoopQuit],
              receivers = [InterfacesAddedReceiver, PropertiesChangedReceiver],
              timers = [], pending = [], running = False,
              queue = [InterfacesAdded ''/hci0/dev_1'', TimeoutElapsed]\<rparr>)
   \<and> scan calm 7
         \<lparr>trace = [AddSignalReceiver InterfacesAddedReceiver,
                    AddSignalReceiver PropertiesChangedReceiver, GetManagedObjects,
                    Invoke (StopDiscovery ''/hci0'') None,
                    Invoke (StartDiscovery ''/hci0'') None, TimeoutAddSeconds 5, LoopRun,
                    GetManagedObjects, Invoke (StopDiscovery ''/hci0'') None, LoopQuit],
            receivers = [InterfacesAddedReceiver, PropertiesChangedReceiver],
            timers = [], pending = [], running = False,
            queue = [InterfacesAdded ''/hci0/dev_1'', TimeoutElapsed]\<rparr> =
     Some (Inr PyNone,
           \<lparr>trace = [AddSignalReceiver InterfacesAddedReceiver,
                      AddSignalReceiver PropertiesChangedReceiver, GetManagedObjects,
                      Invoke (StopDiscovery ''/hci0'') None,
                      Invoke (StartDiscovery ''/hci0'') None, TimeoutAddSeconds 5, LoopRun,
                      GetManagedObjects, Invoke (StopDiscovery ''/hci0'') None, LoopQuit,
                      AddSignalReceiver InterfacesAddedReceiver,
                      AddSignalReceiver PropertiesChangedReceiver, GetManagedObjects,
                      Invoke (StopDiscovery ''/hci0'') None,
                      Invoke (StartDiscovery ''/hci0'') None, TimeoutAddSeconds 7, LoopRun,
                      Log Info (AddedInterfaces ''/hci0/dev_1''),
                      Log Info (AddedInterfaces ''/hci0/dev_1''),
                      GetManagedObjects, Invoke (StopDiscovery ''/hci0'') None, LoopQuit],
              receivers = [InterfacesAddedReceiver, PropertiesChangedReceiver,
                           InterfacesAddedReceiver, PropertiesChangedReceiver],
              timers = [], pending = [], running = False, queue = []\<rparr>)"
  by (simp add: world_defs const_defs op_defs scan_defs interfaces_added_def)

section \<open>The manager is idle between calls\<close>

text \<open>
  The theorems on \<^verbatim>\<open>pair\<close> and \<^verbatim>\<open>scan\<close> above start from a state with no timer
  armed and no \<^verbatim>\<open>Pair()\<close> awaiting its reply. That is every state a fresh manager can
  be in when a call begins: each operation of the module that returns, normally or by
  raising, leaves the manager idle. (A \<^verbatim>\<open>scan\<close> whose timer callback raised has lost
  its timer, and with it any way to leave the loop: it does not return.)
\<close>

lemma idle_fresh: "idle (fresh evs)"
  by (simp add: idle_def fresh_def)

lemma quiet_when_idle: "timers s = [] \<Longrightarrow> pending s = [] \<Longrightarrow> quiet s e"
  by (cases e) auto

lemma main_loop_idle_blocks:
  "timers s = [] \<Longrightarrow> pending s = [] \<Longrightarrow> running s \<Longrightarrow> main_loop w evs s = None"
proof (induction evs arbitrary: s)
  case Nil
  show ?case by simp
next
  case (Cons e evs)
  then obtain logs where "dispatch w e s = s\<lparr>trace := trace s @ logs\<rparr>"
    using dispatch_quiet [OF quiet_when_idle] by blast
  with Cons show ?case by simp
qed

lemma main_loop_pairing_idle:
  "timers s = [] \<Longrightarrow> pending s = [p] \<Longrightarrow> running s \<Longrightarrow> main_loop w evs s = Some s' \<Longrightarrow>
   idle s'"
proof (induction evs arbitrary: s)
  case Nil
  then show ?case by simp
next
  case (Cons e evs)
  show ?case
  proof (cases "completion p e")
    case True
    from dispatch_completion [OF Cons.prems(2) True, of w] Cons.prems show ?thesis
      by (auto simp: idle_def)
  next
    case False
    with Cons.prems obtain logs where d: "dispatch w e s = s\<lparr>trace := trace s @ logs\<rparr>"
      using dispatch_quiet [OF quiet_while_pairing] by blast
    with Cons.prems have "main_loop w evs (s\<lparr>trace := trace s @ logs\<rparr>) = Some s'" by simp
    then show ?thesis
      using Cons.prems by (intro Cons.IH [of "s\<lparr>trace := trace s @ logs\<rparr>"]) simp_all
  qed
qed

lemma stop_each_fields:
  "\<exists>tr. snd (stop_each w as s) = s\<lparr>trace := trace s @ tr\<rparr>"
proof (induction as arbitrary: s)
  case Nil
  have "snd (stop_each w [] s) = s\<lparr>trace := trace s @ []\<rparr>" by simp
  then show ?case by blast
next
  case (Cons a as)
  let ?s1 = "s\<lparr>trace := trace s @ [Invoke (StopDiscovery a) (refuses w (trace s) (StopDiscovery a))]\<rparr>"
  show ?case
  proof (cases "refuses w (trace s) (StopDiscovery a)")
    case None
    from Cons.IH [of ?s1] obtain tr where "snd (stop_each w as ?s1) = ?s1\<lparr>trace := trace ?s1 @ tr\<rparr>"
      by blast
    with None have "snd (stop_each w (a # as) s) =
        s\<lparr>trace := trace s @ (Invoke (StopDiscovery a) None # tr)\<rparr>"
      by (simp add: invoke_def emit_def)
    then show ?thesis by blast
  next
    case (Some m)
    then have "snd (stop_each w (a # as) s) = s\<lparr>trace := trace s @ [Invoke (StopDiscovery a) (Some m)]\<rparr>"
      by (simp add: invoke_def emit_def)
    then show ?thesis by blast
  qed
qed

lemma scan_timeout_fields:
  "timers (snd (scan_timeout w s)) = timers s \<and> pending (snd (scan_timeout w s)) = pending s"
proof -
  obtain tr where tr: "snd (stop_each w (adapters_at w (trace s)) (emit GetManagedObjects s)) =
      (emit GetManagedObjects s)\<lparr>trace := trace (emit GetManagedObjects s) @ tr\<rparr>"
    using stop_each_fields by blast
  show ?thesis
  proof (cases "stop_each w (adapters_at w (trace s)) (emit GetManagedObjects s)")
    case (Pair r s2)
    with tr show ?thesis
      by (cases r) (auto simp: scan_timeout_def get_adapters resume_def emit_def)
  qed
qed

lemma main_loop_scanning_idle:
  "timers s = [t] \<Longrightarrow> pending s = [] \<Longrightarrow> running s \<Longrightarrow> main_loop w evs s = Some s' \<Longrightarrow>
   idle s'"
proof (induction evs arbitrary: s)
  case Nil
  then show ?case by simp
next
  case (Cons e evs)
  show ?case
  proof (cases "e = TimeoutElapsed")
    case True
    let ?s1 = "snd (scan_timeout w (s\<lparr>timers := []\<rparr>))"
    have d: "dispatch w e s = ?s1" using True Cons.prems(1) by simp
    have f: "timers ?s1 = []" "pending ?s1 = []"
      using scan_timeout_fields [of w "s\<lparr>timers := []\<rparr>"] Cons.prems(2) by simp_all
    show ?thesis
    proof (cases "running ?s1")
      case True
      with f have "main_loop w evs ?s1 = None" by (intro main_loop_idle_blocks)
      with Cons.prems(4) d True show ?thesis by simp
    next
      case False
      with Cons.prems(4) d f show ?thesis by (auto simp: idle_def)
    qed
  next
    case False
    with Cons.prems obtain logs where d: "dispatch w e s = s\<lparr>trace := trace s @ logs\<rparr>"
      using dispatch_quiet [OF quiet_while_scanning] by blast
    with Cons.prems have "main_loop w evs (s\<lparr>trace := trace s @ logs\<rparr>) = Some s'" by simp
    then show ?thesis
      using Cons.prems by (intro Cons.IH [of "s\<lparr>trace := trace s @ logs\<rparr>"]) simp_all
  qed
qed

lemma pair_idle:
  assumes "idle s" and "pair w p s = Some (r, s')"
  shows "idle s'"
proof -
  let ?s0 = "(emit (PairAsync p) s)\<lparr>pending := pending s @ [p]\<rparr>"
  from assms(2) obtain s1 where w: "wait w ?s0 = Some s1"
    by (auto simp: pair_def split: option.splits)
  have "main_loop w (queue ?s0) ((emit LoopRun ?s0)\<lparr>running := True\<rparr>) = Some s1"
    using w by (simp add: wait_def run_def)
  moreover have "timers ((emit LoopRun ?s0)\<lparr>running := True\<rparr>) = []"
      "pending ((emit LoopRun ?s0)\<lparr>running := True\<rparr>) = [p]"
    using assms(1) by (simp_all add: idle_def emit_def)
  ultimately have "idle s1"
    using main_loop_pairing_idle [of "(emit LoopRun ?s0)\<lparr>running := True\<rparr>" p w] by simp
  moreover have "timers s' = timers s1 \<and> pending s' = pending s1"
    using assms(2) w
    by (auto simp: pair_def invoke_def emit_def log_def split: option.splits exn.splits)
  ultimately show ?thesis by (simp add: idle_def)
qed

lemma scan_idle:
  assumes "idle s" and "scan w t s = Some (r, s')"
  shows "idle s'"
proof -
  let ?h = "trace s @ [AddSignalReceiver InterfacesAddedReceiver,
                       AddSignalReceiver PropertiesChangedReceiver]"
  let ?s1 = "s\<lparr>trace := trace s @ [AddSignalReceiver InterfacesAddedReceiver,
                                     AddSignalReceiver PropertiesChangedReceiver, GetManagedObjects],
                receivers := receivers s @ [InterfacesAddedReceiver, PropertiesChangedReceiver]\<rparr>"
  obtain tr where tr: "snd (start_each w (adapters_at w ?h) ?s1) = ?s1\<lparr>trace := trace ?s1 @ tr\<rparr>"
    using start_each_trace [of w "adapters_at w ?h" ?s1] by blast
  let ?s2 = "?s1\<lparr>trace := trace ?s1 @ tr\<rparr>"
  show ?thesis
  proof (cases "fst (start_each w (adapters_at w ?h) ?s1)")
    case (Inl e)
    then have "start_each w (adapters_at w ?h) ?s1 = (Inl e, ?s2)"
      using tr by (metis prod.collapse)
    with assms(2) have "s' = ?s2" by (simp add: scan_unfold)
    with assms(1) show ?thesis by (simp add: idle_def)
  next
    case (Inr u)
    then have "start_each w (adapters_at w ?h) ?s1 = (Inr u, ?s2)"
      using tr by (metis prod.collapse)
    with assms(2) have "run w (timeout_add_seconds t ?s2) = Some s'"
      by (auto simp: scan_unfold split: option.splits)
    then have "main_loop w (queue s)
        ((emit LoopRun (timeout_add_seconds t ?s2))\<lparr>running := True\<rparr>) = Some s'"
      by (simp add: run_def timeout_add_seconds_def emit_def)
    moreover have "timers ((emit LoopRun (timeout_add_seconds t ?s2))\<lparr>running := True\<rparr>) = [t]"
        "pending ((emit LoopRun (timeout_add_seconds t ?s2))\<lparr>running := True\<rparr>) = []"
      using assms(1) by (simp_all add: idle_def timeout_add_seconds_def emit_def)
    ultimately show ?thesis
      using main_loop_scanning_idle
        [of "(emit LoopRun (timeout_add_seconds t ?s2))\<lparr>running := True\<rparr>" t w "queue s" s']
      by simp
  qed
qed

lemma devices_loop_fields:
  "timers (snd (devices_loop w category filters ds s)) = timers s \<and>
   pending (snd (devices_loop w category filters ds s)) = pending s"
proof (induction ds arbitrary: s)
  case Nil
  show ?case by simp
next
  case (Cons d ds)
  have "timers (emit GetManagedObjects s) = timers s" "pending (emit GetManagedObjects s) = pending s"
       "timers (log Info m (emit GetManagedObjects s)) = timers s"
       "pending (log Info m (emit GetManagedObjects s)) = pending s" for m
    by (simp_all add: emit_def log_def)
  with Cons.IH [of "emit GetManagedObjects s"]
       Cons.IH [of "log Info m (emit GetManagedObjects s)" for m]
  show ?case
    by (auto simp: get_object_by_path_def split: sum.splits step.splits prod.splits)
qed

lemma get_bt_devices_idle: "idle s \<Longrightarrow> idle (snd (get_bt_devices w category filters s))"
  using devices_loop_fields [of w category filters _ "emit GetManagedObjects s"]
  by (simp add: get_bt_devices_def get_objects_by_iface_def idle_def emit_def)

lemma ensure_powered_idle: "idle s \<Longrightarrow> idle (snd (ensure_powered w p s))"
  by (auto simp: ensure_powered_def prop_get_def set_bool_prop_def invoke_def emit_def log_def
        idle_def Let_def split: option.splits)

lemma unpair_idle: "idle s \<Longrightarrow> idle (snd (unpair w p s))"
  by (auto simp: unpair_def invoke_def emit_def idle_def split: option.splits)

end
